theory Spec2Isabelle
  imports Main "HOL-Library.Word"
begin

unbundle bit_operations_syntax

section \<open>The virtual-connection I/O core of iocore/net/UnixNetVConnection.cc\<close>

text \<open>
  A shallow embedding of one \<open>UnixNetVConnection\<close>, the \<open>NetHandler\<close> it belongs to and
  the mutexes they refer to. The build modelled is the one without \<open>INACTIVITY_TIMEOUT\<close>
  (the deadlines are the fields \<open>next_inactivity_timeout_at\<close> and
  \<open>next_activity_timeout_at\<close>) and without \<open>DEBUG\<close>: \<open>ink_assert\<close> compiles to nothing,
  \<open>ink_release_assert\<close> aborts the process. An abort, like the dereference of a null
  pointer, is the result \<open>None\<close>. The 64-bit byte counts are unbounded integers: they
  are bounded by buffer sizes and never come near the word size.
\<close>

subsection \<open>Constants of the event system and of errno.h\<close>

text \<open>
  The event codes are those of the event system's headers (I\_Event.h, I\_VConnection.h),
  the error numbers those of Linux. The source names them symbolically only.
\<close>

definition EVENT_DONE :: int where "EVENT_DONE = 0"
definition EVENT_CONT :: int where "EVENT_CONT = 1"
definition EVENT_IMMEDIATE :: int where "EVENT_IMMEDIATE = 1"
definition EVENT_INTERVAL :: int where "EVENT_INTERVAL = 2"
definition EVENT_ERROR :: int where "EVENT_ERROR = 3"
definition VC_EVENT_READ_READY :: int where "VC_EVENT_READ_READY = 100"
definition VC_EVENT_WRITE_READY :: int where "VC_EVENT_WRITE_READY = 101"
definition VC_EVENT_READ_COMPLETE :: int where "VC_EVENT_READ_COMPLETE = 102"
definition VC_EVENT_WRITE_COMPLETE :: int where "VC_EVENT_WRITE_COMPLETE = 103"
definition VC_EVENT_EOS :: int where "VC_EVENT_EOS = 104"
definition VC_EVENT_ERROR :: int where "VC_EVENT_ERROR = EVENT_ERROR"
definition VC_EVENT_INACTIVITY_TIMEOUT :: int where "VC_EVENT_INACTIVITY_TIMEOUT = 105"
definition VC_EVENT_ACTIVE_TIMEOUT :: int where "VC_EVENT_ACTIVE_TIMEOUT = 106"

definition SSL_EVENT_SERVER :: int where "SSL_EVENT_SERVER = 0"
definition SSL_EVENT_CLIENT :: int where "SSL_EVENT_CLIENT = 1"
definition SSL_HANDSHAKE_WANT_READ :: int where "SSL_HANDSHAKE_WANT_READ = 6"
definition SSL_HANDSHAKE_WANT_WRITE :: int where "SSL_HANDSHAKE_WANT_WRITE = 7"
definition SSL_HANDSHAKE_WANT_ACCEPT :: int where "SSL_HANDSHAKE_WANT_ACCEPT = 8"
definition SSL_HANDSHAKE_WANT_CONNECT :: int where "SSL_HANDSHAKE_WANT_CONNECT = 9"

definition EAGAIN :: int where "EAGAIN = 11"
definition ECONNRESET :: int where "ECONNRESET = 104"
definition ENOTCONN :: int where "ENOTCONN = 107"

definition NO_FD :: int where "NO_FD = - 1"

definition NET_VC_SHUTDOWN_READ :: "2 word" where "NET_VC_SHUTDOWN_READ = 1"
definition NET_VC_SHUTDOWN_WRITE :: "2 word" where "NET_VC_SHUTDOWN_WRITE = 2"

text \<open>The cast \<open>(int)\<close> of a 64-bit value: the low 32 bits, read as two's complement.\<close>

definition int_cast :: "int \<Rightarrow> int" where
  "int_cast x = signed_take_bit 31 x"

subsection \<open>Data model\<close>

type_synonym ethread = nat
type_synonym continuation = nat
type_synonym pmutex = nat

datatype vio_op = NONE | READ | WRITE

datatype vio_ref = ReadVIO | WriteVIO

datatype eventio = EVENTIO_READ | EVENTIO_WRITE

datatype ShutdownHowTo_t = IO_SHUTDOWN_READ | IO_SHUTDOWN_WRITE | IO_SHUTDOWN_READWRITE

text \<open>
  Modelled from the spec: the byte buffer interface (section 2, component 1). The
  writer side of a buffer is the chain of its blocks from \<open>first_write_block\<close> on,
  each block given by its \<open>write_avail\<close>; a reader is its \<open>start_offset\<close> and the chain
  from its current block on, each block given by its \<open>read_avail\<close>, together with the
  buffer it reads from.
\<close>

type_synonym MIOBuffer = "int list"

record IOBufferReader =
  start_offset :: int
  block :: "int list"
  reader_mbuf :: MIOBuffer

record MIOBufferAccessor =
  mbuf :: "MIOBuffer option"
  entry :: "IOBufferReader option"

record VIO =
  op :: vio_op
  nbytes :: int
  ndone :: int
  cont :: "continuation option"
  mutex :: "pmutex option"
  buffer :: MIOBufferAccessor
  vc_server :: bool

record NetState =
  enabled :: bool
  triggered :: bool
  in_enabled_list :: bool
  vio :: VIO

record ProxyMutex =
  thread_holding :: "ethread option"
  nthread_holding :: nat

datatype vcref = This | Other nat

datatype ep_op = EpModify eventio | EpModifyOff eventio | EpRefresh eventio | EpStop

text \<open>
  The state of the program as far as this file reads and writes it: the fields of the
  connection, the lists and the mutex of its \<open>NetHandler\<close>, and the mutexes and
  continuations on the heap. \<open>nh\<close> says whether the pointer \<open>vc->nh\<close> is set; \<open>ep\<close> is the
  sequence of operations performed on the polling binding; \<open>sock_shutdown\<close> is the
  sequence of \<open>how\<close> arguments of the \<open>shutdown\<close> calls made on the socket; \<open>freed\<close>
  counts how often \<open>free\<close> has returned the object to its allocator.
\<close>

record vstate =
  closed :: int
  recursion :: int
  lerrno :: int
  thread :: "ethread option"
  nh :: bool
  vc_mutex :: "pmutex option"
  read_ns :: NetState
  write_ns :: NetState
  f_shutdown :: "2 word"
  inactivity_timeout_in :: int
  active_timeout_in :: int
  next_inactivity_timeout_at :: int
  next_activity_timeout_at :: int
  write_buffer_empty_event :: int
  ep :: "ep_op list"
  con_fd :: int
  sock_shutdown :: "int list"
  oob_ptr :: bool
  freed :: nat
  nh_mutex :: pmutex
  open_list :: "vcref list"
  cop_list :: "vcref list"
  read_ready_list :: "vcref list"
  write_ready_list :: "vcref list"
  read_enable_list :: "vcref list"
  write_enable_list :: "vcref list"
  in_keep_alive_queue :: bool
  in_active_queue :: bool
  trigger_event :: bool
  signal_hook_calls :: nat
  mutexes :: "pmutex \<Rightarrow> ProxyMutex"
  cont_mutex :: "continuation \<Rightarrow> pmutex option"

text \<open>
  What an observer sees of an I/O pass: the signals sent towards a continuation, each
  with the state the continuation is called on, and the system calls with their vectors
  and results.
\<close>

datatype obs =
    Signal vio_ref int vstate
  | SysRead "int list" int
  | SysWrite "int list" int

record world =
  st :: vstate
  trace :: "obs list"

text \<open>
  The environment of the connection: the continuations' handlers, the kernel behind the
  socket (the result of the \<open>k\<close>-th observation when it is a read or write of the given
  vector), the clock, the running thread, the compile-time bound of an I/O vector and
  the virtual TLS hooks of the class.
\<close>

record env =
  handleEvent :: "continuation \<Rightarrow> int \<Rightarrow> vio_ref \<Rightarrow> vstate \<Rightarrow> vstate option"
  socket_read :: "nat \<Rightarrow> int list \<Rightarrow> int"
  socket_write :: "nat \<Rightarrow> int list \<Rightarrow> int"
  get_hrtime :: int
  this_ethread :: ethread
  ethread_mutex :: pmutex
  NET_MAX_IOV :: nat
  getSSLHandShakeComplete :: "vstate \<Rightarrow> bool"
  getSSLClientConnection :: "vstate \<Rightarrow> bool"
  sslStartHandShake :: "int \<Rightarrow> vstate \<Rightarrow> int \<times> int"

definition on_st :: "(vstate \<Rightarrow> vstate) \<Rightarrow> world \<Rightarrow> world" where
  "on_st f w = w\<lparr>st := f (st w)\<rparr>"

definition netstate :: "vio_ref \<Rightarrow> vstate \<Rightarrow> NetState" where
  "netstate d s = (case d of ReadVIO \<Rightarrow> read_ns s | WriteVIO \<Rightarrow> write_ns s)"

definition netstate_update :: "vio_ref \<Rightarrow> (NetState \<Rightarrow> NetState) \<Rightarrow> vstate \<Rightarrow> vstate" where
  "netstate_update d f s =
     (case d of ReadVIO \<Rightarrow> s\<lparr>read_ns := f (read_ns s)\<rparr> | WriteVIO \<Rightarrow> s\<lparr>write_ns := f (write_ns s)\<rparr>)"

text \<open>The polling interest and the ready list of a direction.\<close>

definition eventio_of :: "vio_ref \<Rightarrow> eventio" where
  "eventio_of d = (case d of ReadVIO \<Rightarrow> EVENTIO_READ | WriteVIO \<Rightarrow> EVENTIO_WRITE)"

definition ready_list :: "vio_ref \<Rightarrow> vstate \<Rightarrow> vcref list" where
  "ready_list d s = (case d of ReadVIO \<Rightarrow> read_ready_list s | WriteVIO \<Rightarrow> write_ready_list s)"

subsection \<open>Collaborators: buffers, queues, mutexes\<close>

text \<open>Modelled from the spec: \<open>write_avail\<close> of a buffer, the space of its writer chain.\<close>

definition write_avail :: "MIOBuffer \<Rightarrow> int" where
  "write_avail b = sum_list b"

text \<open>Modelled from the spec: \<open>fill\<close> of a buffer, which uses up the chain's space in order.\<close>

fun fill :: "int \<Rightarrow> MIOBuffer \<Rightarrow> MIOBuffer" where
  "fill len [] = []"
| "fill len (f # b) = (if f < len then 0 # fill (len - f) b else (f - len) # b)"

text \<open>Modelled from the spec: \<open>read_avail\<close> of a reader.\<close>

definition read_avail :: "IOBufferReader \<Rightarrow> int" where
  "read_avail r = sum_list (block r) - start_offset r"

text \<open>Modelled from the spec: \<open>consume\<close> of a reader, which moves past the blocks read.\<close>

fun consume_blocks :: "int \<Rightarrow> int list \<Rightarrow> int \<times> int list" where
  "consume_blocks s (r # r2 # b) =
     (if r \<le> s \<and> r2 \<noteq> 0 then consume_blocks (s - r) (r2 # b) else (s, r # r2 # b))"
| "consume_blocks s b = (s, b)"

definition consume :: "int \<Rightarrow> IOBufferReader \<Rightarrow> IOBufferReader" where
  "consume n r =
     (case consume_blocks (start_offset r + n) (block r) of
        (s, b) \<Rightarrow> r\<lparr>start_offset := s, block := b\<rparr>)"

text \<open>Modelled from the spec: \<open>VIO::ntodo\<close> (section 3, VIO invariants).\<close>

definition ntodo :: "VIO \<Rightarrow> int" where
  "ntodo v = (if op v = NONE then 0 else nbytes v - ndone v)"

text \<open>Modelled from the spec: the intrusive lists of the NetHandler.\<close>

definition in_or_enqueue :: "vcref \<Rightarrow> vcref list \<Rightarrow> vcref list" where
  "in_or_enqueue v q = (if v \<in> set q then q else q @ [v])"

definition q_remove :: "vcref \<Rightarrow> vcref list \<Rightarrow> vcref list" where
  "q_remove v q = removeAll v q"

definition q_push :: "vcref \<Rightarrow> vcref list \<Rightarrow> vcref list" where
  "q_push v q = v # q"

text \<open>
  Modelled from the spec: the try-lock discipline of section 5. A mutex is recursive:
  the thread that holds it takes it again, another thread fails at once. The thread
  argument is a pointer and may be null.
\<close>

definition Mutex_trylock :: "ethread option \<Rightarrow> ProxyMutex \<Rightarrow> ProxyMutex option" where
  "Mutex_trylock t m =
     (if thread_holding m = t then Some (m\<lparr>nthread_holding := nthread_holding m + 1\<rparr>)
      else if thread_holding m = None
        then Some (m\<lparr>thread_holding := t, nthread_holding := nthread_holding m + 1\<rparr>)
      else None)"

definition Mutex_unlock :: "ProxyMutex \<Rightarrow> ProxyMutex" where
  "Mutex_unlock m =
     (if nthread_holding m = 0 then m
      else if nthread_holding m = 1 then m\<lparr>thread_holding := None, nthread_holding := 0\<rparr>
      else m\<lparr>nthread_holding := nthread_holding m - 1\<rparr>)"

definition lock_at :: "pmutex \<Rightarrow> ProxyMutex \<Rightarrow> vstate \<Rightarrow> vstate" where
  "lock_at m pm s = s\<lparr>mutexes := (mutexes s)(m := pm)\<rparr>"

definition unlock_at :: "pmutex \<Rightarrow> vstate \<Rightarrow> vstate" where
  "unlock_at m s = s\<lparr>mutexes := (mutexes s)(m := Mutex_unlock (mutexes s m))\<rparr>"

subsection \<open>Rescheduling, disabling, activity\<close>

definition read_reschedule :: "vstate \<Rightarrow> vstate" where
  "read_reschedule s =
     (let s1 = s\<lparr>ep := ep s @ [EpRefresh EVENTIO_READ]\<rparr> in
      if triggered (read_ns s1) \<and> enabled (read_ns s1)
      then s1\<lparr>read_ready_list := in_or_enqueue This (read_ready_list s1)\<rparr>
      else s1\<lparr>read_ready_list := q_remove This (read_ready_list s1)\<rparr>)"

definition write_reschedule :: "vstate \<Rightarrow> vstate" where
  "write_reschedule s =
     (let s1 = s\<lparr>ep := ep s @ [EpRefresh EVENTIO_WRITE]\<rparr> in
      if triggered (write_ns s1) \<and> enabled (write_ns s1)
      then s1\<lparr>write_ready_list := in_or_enqueue This (write_ready_list s1)\<rparr>
      else s1\<lparr>write_ready_list := q_remove This (write_ready_list s1)\<rparr>)"

text \<open>
  Modelled from the spec: \<open>read_disable\<close> and \<open>write_disable\<close> (section 4.4, Disable):
  remove from the ready list, clear \<open>enabled\<close>, and take the direction out of the polling
  interest. Their code is in a header that is not among the sources.
\<close>

definition read_disable :: "vstate \<Rightarrow> vstate" where
  "read_disable s =
     s\<lparr>read_ready_list := q_remove This (read_ready_list s),
       read_ns := (read_ns s)\<lparr>enabled := False\<rparr>,
       ep := ep s @ [EpModifyOff EVENTIO_READ]\<rparr>"

definition write_disable :: "vstate \<Rightarrow> vstate" where
  "write_disable s =
     s\<lparr>write_ready_list := q_remove This (write_ready_list s),
       write_ns := (write_ns s)\<lparr>enabled := False\<rparr>,
       ep := ep s @ [EpModifyOff EVENTIO_WRITE]\<rparr>"

definition net_activity :: "env \<Rightarrow> vstate \<Rightarrow> vstate" where
  "net_activity e s =
     (if inactivity_timeout_in s \<noteq> 0
      then s\<lparr>next_inactivity_timeout_at := get_hrtime e + inactivity_timeout_in s\<rparr>
      else s\<lparr>next_inactivity_timeout_at := 0\<rparr>)"

subsection \<open>Closing and freeing\<close>

definition cancel_OOB :: "vstate \<Rightarrow> vstate" where
  "cancel_OOB s = (if oob_ptr s then s\<lparr>oob_ptr := False\<rparr> else s)"

text \<open>
  \<open>free\<close>: the release assertion compares its argument with the running thread. The
  shutdown bits share their storage with \<open>flags\<close>, which is cleared.
\<close>

definition free :: "env \<Rightarrow> ethread option \<Rightarrow> vstate \<Rightarrow> vstate option" where
  "free e t s =
     (if t \<noteq> Some (this_ethread e) then None
      else Some (s\<lparr>vc_mutex := None,
                  read_ns := (read_ns s)\<lparr>triggered := False, enabled := False,
                      vio := (vio (read_ns s))\<lparr>mutex := None, cont := None, vc_server := False\<rparr>\<rparr>,
                  write_ns := (write_ns s)\<lparr>triggered := False, enabled := False,
                      vio := (vio (write_ns s))\<lparr>mutex := None, cont := None, vc_server := False\<rparr>\<rparr>,
                  f_shutdown := 0,
                  nh := False,
                  closed := 0,
                  freed := freed s + 1\<rparr>))"

definition close_UnixNetVConnection :: "env \<Rightarrow> vstate \<Rightarrow> ethread option \<Rightarrow> vstate option" where
  "close_UnixNetVConnection e s t =
     (let s1 = cancel_OOB s;
          s2 = s1\<lparr>ep := ep s1 @ [EpStop]\<rparr>;
          s3 = s2\<lparr>con_fd := NO_FD\<rparr>
      in if thread s3 \<noteq> t then None
         else
           let s4 = s3\<lparr>next_inactivity_timeout_at := 0, next_activity_timeout_at := 0,
                       inactivity_timeout_in := 0, active_timeout_in := 0\<rparr>;
               s5 = (if nh s4
                     then s4\<lparr>open_list := q_remove This (open_list s4),
                             cop_list := q_remove This (cop_list s4),
                             read_ready_list := q_remove This (read_ready_list s4),
                             write_ready_list := q_remove This (write_ready_list s4),
                             read_enable_list :=
                               (if in_enabled_list (read_ns s4) then q_remove This (read_enable_list s4)
                                else read_enable_list s4),
                             read_ns := (read_ns s4)\<lparr>in_enabled_list := False\<rparr>,
                             write_enable_list :=
                               (if in_enabled_list (write_ns s4) then q_remove This (write_enable_list s4)
                                else write_enable_list s4),
                             write_ns := (write_ns s4)\<lparr>in_enabled_list := False\<rparr>,
                             in_keep_alive_queue := False,
                             in_active_queue := False\<rparr>
                     else s4)
           in free e t s5)"

subsection \<open>Signalling a continuation\<close>

text \<open>
  \<open>read_signal_and_update\<close> and \<open>write_signal_and_update\<close> are the same code on the two
  directions; \<open>signal_and_update\<close> is that code with the direction as an argument.
\<close>

definition signal_and_update :: "env \<Rightarrow> vio_ref \<Rightarrow> int \<Rightarrow> world \<Rightarrow> (int \<times> world) option" where
  "signal_and_update e d event w =
     (let s1 = (st w)\<lparr>recursion := recursion (st w) + 1\<rparr>;
          tr = trace w @ [Signal d event s1]
      in case (case cont (vio (netstate d s1)) of
                 Some c \<Rightarrow> handleEvent e c event d s1
               | None \<Rightarrow>
                   if event = VC_EVENT_EOS \<or> event = VC_EVENT_ERROR \<or>
                      event = VC_EVENT_ACTIVE_TIMEOUT \<or> event = VC_EVENT_INACTIVITY_TIMEOUT
                   then Some (s1\<lparr>closed := 1\<rparr>)
                   else None) of
           None \<Rightarrow> None
         | Some s2 \<Rightarrow>
             let s3 = s2\<lparr>recursion := recursion s2 - 1\<rparr> in
             if recursion s3 = 0 \<and> closed s3 \<noteq> 0
             then (case close_UnixNetVConnection e s3 (thread s3) of
                     None \<Rightarrow> None
                   | Some s4 \<Rightarrow> Some (EVENT_DONE, \<lparr>st = s4, trace = tr\<rparr>))
             else Some (EVENT_CONT, \<lparr>st = s3, trace = tr\<rparr>))"

definition read_signal_and_update :: "env \<Rightarrow> int \<Rightarrow> world \<Rightarrow> (int \<times> world) option" where
  "read_signal_and_update e event w = signal_and_update e ReadVIO event w"

definition write_signal_and_update :: "env \<Rightarrow> int \<Rightarrow> world \<Rightarrow> (int \<times> world) option" where
  "write_signal_and_update e event w = signal_and_update e WriteVIO event w"

definition read_signal_done :: "env \<Rightarrow> int \<Rightarrow> world \<Rightarrow> (int \<times> world) option" where
  "read_signal_done e event w =
     (case read_signal_and_update e event (on_st (\<lambda>s. s\<lparr>read_ns := (read_ns s)\<lparr>enabled := False\<rparr>\<rparr>) w) of
        None \<Rightarrow> None
      | Some (ret, w1) \<Rightarrow>
          if ret = EVENT_DONE then Some (EVENT_DONE, w1)
          else Some (EVENT_CONT, on_st read_reschedule w1))"

definition write_signal_done :: "env \<Rightarrow> int \<Rightarrow> world \<Rightarrow> (int \<times> world) option" where
  "write_signal_done e event w =
     (case write_signal_and_update e event (on_st (\<lambda>s. s\<lparr>write_ns := (write_ns s)\<lparr>enabled := False\<rparr>\<rparr>) w) of
        None \<Rightarrow> None
      | Some (ret, w1) \<Rightarrow>
          if ret = EVENT_DONE then Some (EVENT_DONE, w1)
          else Some (EVENT_CONT, on_st write_reschedule w1))"

definition read_signal_error :: "env \<Rightarrow> int \<Rightarrow> world \<Rightarrow> (int \<times> world) option" where
  "read_signal_error e err w = read_signal_done e VC_EVENT_ERROR (on_st (\<lambda>s. s\<lparr>lerrno := err\<rparr>) w)"

definition write_signal_error :: "env \<Rightarrow> int \<Rightarrow> world \<Rightarrow> (int \<times> world) option" where
  "write_signal_error e err w = write_signal_done e VC_EVENT_ERROR (on_st (\<lambda>s. s\<lparr>lerrno := err\<rparr>) w)"

subsection \<open>The connection's interface: enabling, starting I/O, closing, shutting down\<close>

definition set_enabled :: "env \<Rightarrow> vio_ref \<Rightarrow> vstate \<Rightarrow> vstate" where
  "set_enabled e d s =
     (let s1 = netstate_update d (\<lambda>n. n\<lparr>enabled := True\<rparr>) s in
      if next_inactivity_timeout_at s1 = 0 \<and> inactivity_timeout_in s1 \<noteq> 0
      then s1\<lparr>next_inactivity_timeout_at := get_hrtime e + inactivity_timeout_in s1\<rparr>
      else s1)"

text \<open>
  The block that \<open>reenable\<close> runs when it has the NetHandler's mutex (it stands twice in
  the source, once for the owner and once after a successful try-lock).
\<close>

definition reenable_owned :: "vio_ref \<Rightarrow> vstate \<Rightarrow> vstate" where
  "reenable_owned d s =
     (case d of
        ReadVIO \<Rightarrow>
          (let s1 = s\<lparr>ep := ep s @ [EpModify EVENTIO_READ, EpRefresh EVENTIO_READ]\<rparr> in
           if triggered (read_ns s1)
           then s1\<lparr>read_ready_list := in_or_enqueue This (read_ready_list s1)\<rparr>
           else s1\<lparr>read_ready_list := q_remove This (read_ready_list s1)\<rparr>)
      | WriteVIO \<Rightarrow>
          (let s1 = s\<lparr>ep := ep s @ [EpModify EVENTIO_WRITE, EpRefresh EVENTIO_WRITE]\<rparr> in
           if triggered (write_ns s1)
           then s1\<lparr>write_ready_list := in_or_enqueue This (write_ready_list s1)\<rparr>
           else s1\<lparr>write_ready_list := q_remove This (write_ready_list s1)\<rparr>))"

text \<open>The block that \<open>reenable\<close> runs when the try-lock of the NetHandler's mutex fails.\<close>

definition reenable_remote :: "vio_ref \<Rightarrow> vstate \<Rightarrow> vstate" where
  "reenable_remote d s =
     (let s1 = (case d of
                  ReadVIO \<Rightarrow>
                    if \<not> in_enabled_list (read_ns s)
                    then s\<lparr>read_ns := (read_ns s)\<lparr>in_enabled_list := True\<rparr>,
                           read_enable_list := q_push This (read_enable_list s)\<rparr>
                    else s
                | WriteVIO \<Rightarrow>
                    if \<not> in_enabled_list (write_ns s)
                    then s\<lparr>write_ns := (write_ns s)\<lparr>in_enabled_list := True\<rparr>,
                           write_enable_list := q_push This (write_enable_list s)\<rparr>
                    else s)
      in if trigger_event s1 then s1\<lparr>signal_hook_calls := signal_hook_calls s1 + 1\<rparr> else s1)"

definition reenable :: "env \<Rightarrow> vio_ref \<Rightarrow> vstate \<Rightarrow> vstate option" where
  "reenable e d s =
     (if enabled (netstate d s) then Some s
      else
        let s1 = set_enabled e d s in
        if thread s1 = None then Some s1
        else
          (case mutex (vio (netstate d s1)) of
             None \<Rightarrow> None
           | Some vm \<Rightarrow>
               let t = thread_holding (mutexes s1 vm) in
               if \<not> nh s1 then None
               else if thread_holding (mutexes s1 (nh_mutex s1)) = t then Some (reenable_owned d s1)
               else
                 (case Mutex_trylock t (mutexes s1 (nh_mutex s1)) of
                    None \<Rightarrow> Some (reenable_remote d s1)
                  | Some pm \<Rightarrow>
                      Some (unlock_at (nh_mutex s1) (reenable_owned d (lock_at (nh_mutex s1) pm s1))))))"

text \<open>Modelled from the spec: \<open>VIO::reenable\<close> (section 4.4, entry point).\<close>

definition VIO_reenable :: "env \<Rightarrow> vio_ref \<Rightarrow> vstate \<Rightarrow> vstate option" where
  "VIO_reenable e d s = (if vc_server (vio (netstate d s)) then reenable e d s else Some s)"

definition buffer_clear :: MIOBufferAccessor where
  "buffer_clear = \<lparr>mbuf = None, entry = None\<rparr>"

definition writer_for :: "MIOBuffer \<Rightarrow> MIOBufferAccessor" where
  "writer_for b = \<lparr>mbuf = Some b, entry = None\<rparr>"

definition reader_for :: "IOBufferReader \<Rightarrow> MIOBufferAccessor" where
  "reader_for r = \<lparr>mbuf = Some (reader_mbuf r), entry = Some r\<rparr>"

text \<open>
  \<open>do_io_read\<close> and \<open>do_io_write\<close> return a pointer to the VIO, or null: the result is
  the state together with \<open>Some\<close> of the VIO, or with \<open>None\<close> for the null pointer.
\<close>

definition do_io_read ::
  "env \<Rightarrow> continuation option \<Rightarrow> int \<Rightarrow> MIOBuffer option \<Rightarrow> vstate \<Rightarrow> (vio_ref option \<times> vstate) option" where
  "do_io_read e c nb buf s =
     (if closed s \<noteq> 0 then Some (None, s)
      else
        let s1 = s\<lparr>read_ns := (read_ns s)\<lparr>vio := (vio (read_ns s))
                    \<lparr>op := READ,
                     mutex := (case c of Some k \<Rightarrow> cont_mutex s k | None \<Rightarrow> vc_mutex s),
                     cont := c, nbytes := nb, ndone := 0, vc_server := True\<rparr>\<rparr>\<rparr>
        in case buf of
             Some b \<Rightarrow>
               let s2 = s1\<lparr>read_ns := (read_ns s1)\<lparr>vio := (vio (read_ns s1))\<lparr>buffer := writer_for b\<rparr>\<rparr>\<rparr>
               in if \<not> enabled (read_ns s2)
                  then map_option (Pair (Some ReadVIO)) (VIO_reenable e ReadVIO s2)
                  else Some (Some ReadVIO, s2)
           | None \<Rightarrow>
               Some (Some ReadVIO,
                     s1\<lparr>read_ns := (read_ns s1)\<lparr>enabled := False,
                            vio := (vio (read_ns s1))\<lparr>buffer := buffer_clear\<rparr>\<rparr>\<rparr>))"

definition do_io_write ::
  "env \<Rightarrow> continuation option \<Rightarrow> int \<Rightarrow> IOBufferReader option \<Rightarrow> vstate \<Rightarrow> (vio_ref option \<times> vstate) option" where
  "do_io_write e c nb reader s =
     (if closed s \<noteq> 0 then Some (None, s)
      else
        let s1 = s\<lparr>write_ns := (write_ns s)\<lparr>vio := (vio (write_ns s))
                    \<lparr>op := WRITE,
                     mutex := (case c of Some k \<Rightarrow> cont_mutex s k | None \<Rightarrow> vc_mutex s),
                     cont := c, nbytes := nb, ndone := 0, vc_server := True\<rparr>\<rparr>\<rparr>
        in case reader of
             Some r \<Rightarrow>
               let s2 = s1\<lparr>write_ns := (write_ns s1)\<lparr>vio := (vio (write_ns s1))\<lparr>buffer := reader_for r\<rparr>\<rparr>\<rparr>
               in if nb \<noteq> 0 \<and> \<not> enabled (write_ns s2)
                  then map_option (Pair (Some WriteVIO)) (VIO_reenable e WriteVIO s2)
                  else Some (Some WriteVIO, s2)
           | None \<Rightarrow>
               Some (Some WriteVIO, s1\<lparr>write_ns := (write_ns s1)\<lparr>enabled := False\<rparr>\<rparr>))"

definition do_io_close_prepare :: "vstate \<Rightarrow> vstate" where
  "do_io_close_prepare s =
     s\<lparr>read_ns := (read_ns s)\<lparr>enabled := False,
          vio := (vio (read_ns s))\<lparr>buffer := buffer_clear, nbytes := 0, op := NONE, cont := None\<rparr>\<rparr>,
       write_ns := (write_ns s)\<lparr>enabled := False,
          vio := (vio (write_ns s))\<lparr>buffer := buffer_clear, nbytes := 0, op := NONE, cont := None\<rparr>\<rparr>\<rparr>"

definition close_inline :: "env \<Rightarrow> vstate \<Rightarrow> bool" where
  "close_inline e s =
     (recursion s = 0 \<and> (\<not> nh s \<or> thread_holding (mutexes s (nh_mutex s)) = Some (this_ethread e)))"

definition do_io_close :: "env \<Rightarrow> int \<Rightarrow> vstate \<Rightarrow> vstate option" where
  "do_io_close e alerrno s =
     (let s1 = do_io_close_prepare s;
          inl = close_inline e s1;
          s2 = (if alerrno \<noteq> 0 \<and> alerrno \<noteq> - 1 then s1\<lparr>lerrno := alerrno\<rparr> else s1);
          s3 = (if alerrno = - 1 then s2\<lparr>closed := 1\<rparr> else s2\<lparr>closed := - 1\<rparr>)
      in if inl then close_UnixNetVConnection e s3 (Some (this_ethread e)) else Some s3)"

definition do_io_shutdown :: "ShutdownHowTo_t \<Rightarrow> vstate \<Rightarrow> vstate" where
  "do_io_shutdown howto s =
     (case howto of
        IO_SHUTDOWN_READ \<Rightarrow>
          s\<lparr>sock_shutdown := sock_shutdown s @ [0],
            read_ns := (read_ns s)\<lparr>enabled := False,
               vio := (vio (read_ns s))\<lparr>buffer := buffer_clear, nbytes := 0\<rparr>\<rparr>,
            f_shutdown := NET_VC_SHUTDOWN_READ\<rparr>
      | IO_SHUTDOWN_WRITE \<Rightarrow>
          s\<lparr>sock_shutdown := sock_shutdown s @ [1],
            write_ns := (write_ns s)\<lparr>enabled := False,
               vio := (vio (write_ns s))\<lparr>buffer := buffer_clear, nbytes := 0\<rparr>\<rparr>,
            f_shutdown := NET_VC_SHUTDOWN_WRITE\<rparr>
      | IO_SHUTDOWN_READWRITE \<Rightarrow>
          s\<lparr>sock_shutdown := sock_shutdown s @ [2],
            read_ns := (read_ns s)\<lparr>enabled := False,
               vio := (vio (read_ns s))\<lparr>buffer := buffer_clear, nbytes := 0\<rparr>\<rparr>,
            write_ns := (write_ns s)\<lparr>enabled := False,
               vio := (vio (write_ns s))\<lparr>buffer := buffer_clear, nbytes := 0\<rparr>\<rparr>,
            f_shutdown := NET_VC_SHUTDOWN_READ OR NET_VC_SHUTDOWN_WRITE\<rparr>)"

subsection \<open>The read path\<close>

text \<open>
  The inner loop of \<open>read_from_net\<close>: it fills the I/O vector from the block chain \<open>b\<close>.
  \<open>lim\<close> is \<open>toread - total_read\<close>; the vector is given by the lengths of its entries
  (\<open>niov\<close> is its length); the result is the vector, \<open>rattempted\<close> and the block at which
  the walk stopped.
\<close>

fun read_fill_iov :: "nat \<Rightarrow> int \<Rightarrow> int list \<Rightarrow> int list \<Rightarrow> int \<Rightarrow> int list \<times> int \<times> int list" where
  "read_fill_iov max_iov lim [] tiovec rattempted = (tiovec, rattempted, [])"
| "read_fill_iov max_iov lim (a # b) tiovec rattempted =
     (if length tiovec < max_iov then
        (if a > 0 then
           (let togo = lim - rattempted;
                a' = (if a > togo then togo else a)
            in if a' \<ge> togo then (tiovec @ [a'], rattempted + a', a # b)
               else read_fill_iov max_iov lim b (tiovec @ [a']) (rattempted + a'))
         else read_fill_iov max_iov lim b tiovec rattempted)
      else (tiovec, rattempted, a # b))"

text \<open>
  The do-while loop of \<open>read_from_net\<close>. \<open>rd k tiovec\<close> is the result of the \<open>k\<close>-th
  system call of the pass (\<open>read\<close> when the vector has one entry, \<open>readv\<close> otherwise);
  \<open>calls\<close> collects the calls made. The result is the last \<open>r\<close>, the last
  \<open>rattempted\<close>, \<open>total_read\<close> and the calls.
\<close>

function read_loop ::
  "nat \<Rightarrow> (nat \<Rightarrow> int list \<Rightarrow> int) \<Rightarrow> int \<Rightarrow> int list \<Rightarrow> int \<Rightarrow> (int list \<times> int) list
     \<Rightarrow> int \<times> int \<times> int \<times> (int list \<times> int) list" where
  "read_loop max_iov rd toread b total_read calls =
     (case read_fill_iov max_iov (toread - total_read) b [] 0 of
        (tiovec, rattempted, b') \<Rightarrow>
          let r = rd (length calls) tiovec;
              calls' = calls @ [(tiovec, r)];
              total_read' = total_read + rattempted
          in if rattempted \<noteq> 0 \<and> r = rattempted \<and> total_read' < toread
             then read_loop max_iov rd toread b' total_read' calls'
             else (r, rattempted, total_read', calls'))"
  by pat_completeness auto
termination
proof (relation "measure (\<lambda>(max_iov, rd, toread, b, total_read, calls). nat (toread - total_read))")
  show "wf (measure (\<lambda>(max_iov, rd, toread, b, total_read, calls). nat (toread - total_read)))"
    by simp
next
  fix max_iov :: nat and rd :: "nat \<Rightarrow> int list \<Rightarrow> int" and toread :: int and b :: "int list"
    and total_read :: int and calls :: "(int list \<times> int) list"
    and tiovec :: "int list" and y :: "int \<times> int list"
    and rattempted :: int and b' :: "int list" and r :: int and calls' :: "(int list \<times> int) list"
    and total_read' :: int
  assume fill: "(tiovec, y) = read_fill_iov max_iov (toread - total_read) b [] 0"
    and y: "(rattempted, b') = y"
    and "r = rd (length calls) tiovec" and "calls' = calls @ [(tiovec, r)]"
    and tot: "total_read' = total_read + rattempted"
    and cont: "rattempted \<noteq> 0 \<and> r = rattempted \<and> total_read' < toread"
  have grow: "ra' = ra \<or> lim \<le> ra' \<or> ra < ra'"
    if "read_fill_iov mi lim bs tv ra = (tv', ra', bs')"
    for mi lim bs tv ra tv' ra' bs'
    using that
  proof (induction mi lim bs tv ra rule: read_fill_iov.induct)
    case (1 max_iov lim tiovec rattempted)
    then show ?case by simp
  next
    case (2 max_iov lim a b tiovec rattempted)
    show ?case
    proof (cases "length tiovec < max_iov")
      case False
      with "2.prems" show ?thesis by simp
    next
      case lt: True
      show ?thesis
      proof (cases "a > 0")
        case False
        with lt "2.prems" "2.IH"(2) show ?thesis by simp
      next
        case pos: True
        show ?thesis
        proof (cases "a \<ge> lim - rattempted")
          case True
          with lt pos "2.prems" show ?thesis by (auto simp: Let_def split: if_splits)
        next
          case False
          with lt pos "2.prems"
          have "read_fill_iov max_iov lim b (tiovec @ [a]) (rattempted + a) = (tv', ra', bs')"
            by (simp add: Let_def)
          with "2.IH"(1) [of "lim - rattempted" a] lt pos False
          have "ra' = rattempted + a \<or> lim \<le> ra' \<or> rattempted + a < ra'"
            by simp
          with pos show ?thesis by auto
        qed
      qed
    qed
  qed
  from fill y have "read_fill_iov max_iov (toread - total_read) b [] 0 = (tiovec, rattempted, b')"
    by simp
  from grow [OF this] cont tot have "0 < rattempted" by auto
  with cont tot
  show "((max_iov, rd, toread, b', total_read', calls'), (max_iov, rd, toread, b, total_read, calls))
          \<in> measure (\<lambda>(max_iov, rd, toread, b, total_read, calls). nat (toread - total_read))"
    by simp
qed

text \<open>
  ``If we have already moved some bytes successfully, summarize in r'': the statement
  after the loop, which stands in \<open>read_from_net\<close> and again in \<open>write_to_net_io\<close>.
\<close>

definition summarize :: "int \<Rightarrow> int \<Rightarrow> int \<Rightarrow> int" where
  "summarize total_done attempted r =
     (if total_done \<noteq> attempted
      then (if r \<le> 0 then total_done - attempted else total_done - attempted + r)
      else r)"

text \<open>
  The last part of \<open>read_from_net\<close>: ``if here are is no more room, or nothing to do,
  disable the connection''; otherwise reschedule.
\<close>

definition read_from_net_tail :: "world \<Rightarrow> world option" where
  "read_from_net_tail w =
     (let s = st w in
      if ntodo (vio (read_ns s)) \<le> 0 \<or> \<not> enabled (read_ns s) then Some (on_st read_disable w)
      else
        (case mbuf (buffer (vio (read_ns s))) of
           None \<Rightarrow> None
         | Some wb \<Rightarrow>
             if write_avail wb = 0 then Some (on_st read_disable w)
             else Some (on_st read_reschedule w)))"

text \<open>``Signal read ready, check if user is not done'': the part that starts at \<open>if (r)\<close>.\<close>

definition read_from_net_signal :: "env \<Rightarrow> pmutex \<Rightarrow> int \<Rightarrow> world \<Rightarrow> world option" where
  "read_from_net_signal e m r w =
     (if r \<noteq> 0 then
        (if ntodo (vio (read_ns (st w))) \<le> 0
         then map_option snd (read_signal_done e VC_EVENT_READ_COMPLETE w)
         else
           (case read_signal_and_update e VC_EVENT_READ_READY w of
              None \<Rightarrow> None
            | Some (ret, w1) \<Rightarrow>
                if ret \<noteq> EVENT_CONT then Some w1
                else if Some m \<noteq> mutex (vio (read_ns (st w1))) then Some (on_st read_reschedule w1)
                else read_from_net_tail w1))
      else read_from_net_tail w)"

text \<open>The part that reads: the loop, the summary of its result, and the check for errors.\<close>

definition read_from_net_io :: "env \<Rightarrow> pmutex \<Rightarrow> int \<Rightarrow> MIOBuffer \<Rightarrow> world \<Rightarrow> world option" where
  "read_from_net_io e m toread wb w =
     (case read_loop (NET_MAX_IOV e) (\<lambda>k. socket_read e (length (trace w) + k)) toread wb 0 [] of
        (r0, rattempted, total_read, calls) \<Rightarrow>
          let w1 = w\<lparr>trace := trace w @ map (\<lambda>(v, x). SysRead v x) calls\<rparr>;
              r = summarize total_read rattempted r0
          in if r \<le> 0 then
               (if r = - EAGAIN \<or> r = - ENOTCONN then
                  Some (on_st (\<lambda>s. s\<lparr>read_ns := (read_ns s)\<lparr>triggered := False\<rparr>,
                                     read_ready_list := q_remove This (read_ready_list s)\<rparr>) w1)
                else if r = 0 \<or> r = - ECONNRESET then
                  map_option snd
                    (read_signal_done e VC_EVENT_EOS
                       (on_st (\<lambda>s. s\<lparr>read_ns := (read_ns s)\<lparr>triggered := False\<rparr>,
                                      read_ready_list := q_remove This (read_ready_list s)\<rparr>) w1))
                else
                  map_option snd
                    (read_signal_error e (int_cast (- r))
                       (on_st (\<lambda>s. s\<lparr>read_ns := (read_ns s)\<lparr>triggered := False\<rparr>\<rparr>) w1)))
             else
               read_from_net_signal e m r
                 (on_st (\<lambda>s. net_activity e
                               (s\<lparr>read_ns := (read_ns s)\<lparr>vio := (vio (read_ns s))
                                    \<lparr>buffer := (buffer (vio (read_ns s)))\<lparr>mbuf := Some (fill r wb)\<rparr>,
                                     ndone := ndone (vio (read_ns s)) + r\<rparr>\<rparr>\<rparr>)) w1))"

text \<open>\<open>read_from_net\<close> once it holds the VIO's mutex \<open>m\<close>.\<close>

definition read_from_net_locked :: "env \<Rightarrow> ethread \<Rightarrow> pmutex \<Rightarrow> world \<Rightarrow> world option" where
  "read_from_net_locked e thr m w =
     (let s = st w in
      if closed s \<noteq> 0
      then map_option (\<lambda>s'. w\<lparr>st := s'\<rparr>) (close_UnixNetVConnection e s (Some thr))
      else if \<not> enabled (read_ns s) \<or> op (vio (read_ns s)) \<noteq> READ
      then Some (on_st read_disable w)
      else
        let ntd = ntodo (vio (read_ns s)) in
        if ntd \<le> 0 then Some (on_st read_disable w)
        else
          (case mbuf (buffer (vio (read_ns s))) of
             None \<Rightarrow> None
           | Some wb \<Rightarrow>
               let toread = (if write_avail wb > ntd then ntd else write_avail wb) in
               if toread \<noteq> 0 then read_from_net_io e m toread wb w
               else read_from_net_signal e m 0 w))"

definition read_from_net :: "env \<Rightarrow> ethread \<Rightarrow> world \<Rightarrow> world option" where
  "read_from_net e thr w =
     (case mutex (vio (read_ns (st w))) of
        None \<Rightarrow> None
      | Some m \<Rightarrow>
          (case Mutex_trylock (Some thr) (mutexes (st w) m) of
             None \<Rightarrow> Some (on_st read_reschedule w)
           | Some pm \<Rightarrow>
               map_option (on_st (unlock_at m)) (read_from_net_locked e thr m (on_st (lock_at m pm) w))))"

definition net_read_io :: "env \<Rightarrow> ethread \<Rightarrow> world \<Rightarrow> world option" where
  "net_read_io e lthread w = read_from_net e lthread w"

subsection \<open>The write path\<close>

text \<open>
  The inner loop of \<open>load_buffer_and_write\<close>: it walks the reader's block chain \<open>b\<close>
  from \<open>offset\<close> and fills the I/O vector. The result is the vector, \<open>total_written\<close>,
  the block at which the walk stopped and the offset there.
\<close>

fun write_fill_iov ::
  "nat \<Rightarrow> int \<Rightarrow> int list \<Rightarrow> int \<Rightarrow> int list \<Rightarrow> int \<Rightarrow> int list \<times> int \<times> int list \<times> int" where
  "write_fill_iov max_iov towrite [] offset tiovec total_written = (tiovec, total_written, [], offset)"
| "write_fill_iov max_iov towrite (ba # b) offset tiovec total_written =
     (if length tiovec < max_iov then
        (let l = ba - offset in
         if l \<le> 0 then write_fill_iov max_iov towrite b (- l) tiovec total_written
         else
           (let wavail = towrite - total_written;
                l' = (if l > wavail then wavail else l)
            in if l' = 0 then (tiovec, total_written, ba # b, offset)
               else write_fill_iov max_iov towrite b 0 (tiovec @ [l']) (total_written + l')))
      else (tiovec, total_written, ba # b, offset))"

text \<open>
  The do-while loop of \<open>load_buffer_and_write\<close>. Its condition has no test of
  \<open>wattempted\<close>, so the loop need not end: the result \<open>None\<close> is a loop that runs forever.
\<close>

partial_function (option) write_loop ::
  "nat \<Rightarrow> (nat \<Rightarrow> int list \<Rightarrow> int) \<Rightarrow> int \<Rightarrow> int list \<Rightarrow> int \<Rightarrow> int \<Rightarrow> (int list \<times> int) list
     \<Rightarrow> (int \<times> int \<times> int \<times> (int list \<times> int) list) option" where
  "write_loop max_iov wr towrite b offset total_written calls =
     (case write_fill_iov max_iov towrite b offset [] total_written of
        (tiovec, total_written', b', offset') \<Rightarrow>
          let wattempted = total_written' - total_written;
              r = wr (length calls) tiovec;
              calls' = calls @ [(tiovec, r)]
          in if r = wattempted \<and> total_written' < towrite
             then write_loop max_iov wr towrite b' offset' total_written' calls'
             else Some (r, wattempted, total_written', calls'))"

text \<open>
  \<open>load_buffer_and_write\<close> of the base class. Its reference arguments \<open>wattempted\<close>,
  \<open>total_written\<close> and \<open>needs\<close> are results; \<open>k0\<close> is the number of observations made
  before the call.
\<close>

definition load_buffer_and_write ::
  "env \<Rightarrow> nat \<Rightarrow> int \<Rightarrow> int \<Rightarrow> MIOBufferAccessor \<Rightarrow> eventio set
     \<Rightarrow> (int \<times> int \<times> int \<times> eventio set \<times> (int list \<times> int) list) option" where
  "load_buffer_and_write e k0 towrite total_written buf needs =
     (case entry buf of
        None \<Rightarrow> None
      | Some rd \<Rightarrow>
          (case write_loop (NET_MAX_IOV e) (\<lambda>k. socket_write e (k0 + k)) towrite
                  (block rd) (start_offset rd) total_written [] of
             None \<Rightarrow> None
           | Some (r, wattempted, total_written', calls) \<Rightarrow>
               Some (r, wattempted, total_written', insert EVENTIO_WRITE needs, calls)))"

text \<open>The rescheduling ``in the directions present in \<open>needs\<close>'' at the end of a pass.\<close>

definition write_to_net_io_tail :: "eventio set \<Rightarrow> world \<Rightarrow> world option" where
  "write_to_net_io_tail needs w =
     (case entry (buffer (vio (write_ns (st w)))) of
        None \<Rightarrow> None
      | Some rd \<Rightarrow>
          if read_avail rd = 0 then Some (on_st write_disable w)
          else Some (on_st (\<lambda>s.
                 let s1 = (if EVENTIO_WRITE \<in> needs then write_reschedule s else s)
                 in (if EVENTIO_READ \<in> needs then read_reschedule s1 else s1)) w))"

text \<open>The branch of a successful write: \<open>r > 0\<close> bytes have gone out.\<close>

definition write_to_net_io_done :: "env \<Rightarrow> pmutex \<Rightarrow> bool \<Rightarrow> eventio set \<Rightarrow> int \<Rightarrow> world \<Rightarrow> world option" where
  "write_to_net_io_done e m signalled needs r w =
     (let s = st w; wbe_event = write_buffer_empty_event s in
      case entry (buffer (vio (write_ns s))) of
        None \<Rightarrow> None
      | Some rd \<Rightarrow>
          let rd1 = consume r rd;
              s1 = s\<lparr>write_ns := (write_ns s)\<lparr>vio := (vio (write_ns s))
                       \<lparr>buffer := (buffer (vio (write_ns s)))\<lparr>entry := Some rd1\<rparr>,
                        ndone := ndone (vio (write_ns s)) + r\<rparr>\<rparr>\<rparr>;
              s2 = (if \<not> read_avail rd1 > 0 then s1\<lparr>write_buffer_empty_event := 0\<rparr> else s1);
              w1 = w\<lparr>st := net_activity e s2\<rparr>
          in if ntodo (vio (write_ns (st w1))) \<le> 0
             then map_option snd (write_signal_done e VC_EVENT_WRITE_COMPLETE w1)
             else if signalled \<and> wbe_event \<noteq> write_buffer_empty_event (st w1) then
               (case write_signal_and_update e wbe_event w1 of
                  None \<Rightarrow> None
                | Some (ret, w2) \<Rightarrow>
                    if ret \<noteq> EVENT_CONT then Some w2 else write_to_net_io_tail needs w2)
             else if \<not> signalled then
               (case write_signal_and_update e VC_EVENT_WRITE_READY w1 of
                  None \<Rightarrow> None
                | Some (ret, w2) \<Rightarrow>
                    if ret \<noteq> EVENT_CONT then Some w2
                    else if Some m \<noteq> mutex (vio (write_ns (st w2))) then Some (on_st write_reschedule w2)
                    else write_to_net_io_tail needs w2)
             else write_to_net_io_tail needs w1)"

text \<open>The call of \<open>load_buffer_and_write\<close>, the summary of its result and the check for errors.\<close>

definition write_to_net_io_write :: "env \<Rightarrow> pmutex \<Rightarrow> bool \<Rightarrow> int \<Rightarrow> world \<Rightarrow> world option" where
  "write_to_net_io_write e m signalled towrite w =
     (if towrite \<le> 0 then Some (on_st write_disable w)
      else
        (case load_buffer_and_write e (length (trace w)) towrite 0 (buffer (vio (write_ns (st w)))) {} of
           None \<Rightarrow> None
         | Some (r0, wattempted, total_written, needs, calls) \<Rightarrow>
             let w1 = w\<lparr>trace := trace w @ map (\<lambda>(v, x). SysWrite v x) calls\<rparr>;
                 r = summarize total_written wattempted r0
             in if r \<le> 0 then
                  (if r = - EAGAIN \<or> r = - ENOTCONN then
                     Some (on_st (\<lambda>s.
                        let s1 = (if EVENTIO_WRITE \<in> needs
                                  then write_reschedule
                                         (s\<lparr>write_ns := (write_ns s)\<lparr>triggered := False\<rparr>,
                                            write_ready_list := q_remove This (write_ready_list s)\<rparr>)
                                  else s)
                        in (if EVENTIO_READ \<in> needs
                            then read_reschedule
                                   (s1\<lparr>read_ns := (read_ns s1)\<lparr>triggered := False\<rparr>,
                                       read_ready_list := q_remove This (read_ready_list s1)\<rparr>)
                            else s1)) w1)
                   else if r = 0 \<or> r = - ECONNRESET then
                     map_option snd
                       (write_signal_done e VC_EVENT_EOS
                          (on_st (\<lambda>s. s\<lparr>write_ns := (write_ns s)\<lparr>triggered := False\<rparr>\<rparr>) w1))
                   else
                     map_option snd
                       (write_signal_error e (int_cast (- r))
                          (on_st (\<lambda>s. s\<lparr>write_ns := (write_ns s)\<lparr>triggered := False\<rparr>\<rparr>) w1)))
                else write_to_net_io_done e m signalled needs r w1))"

text \<open>The TLS handshake hook at the head of \<open>write_to_net_io\<close>.\<close>

definition write_handshake :: "env \<Rightarrow> world \<Rightarrow> world option" where
  "write_handshake e w =
     (case sslStartHandShake e
             (if getSSLClientConnection e (st w) then SSL_EVENT_CLIENT else SSL_EVENT_SERVER) (st w) of
        (ret, err) \<Rightarrow>
          if ret = EVENT_ERROR then
            map_option snd
              (write_signal_error e err
                 (on_st (\<lambda>s. s\<lparr>write_ns := (write_ns s)\<lparr>triggered := False\<rparr>\<rparr>) w))
          else if ret = SSL_HANDSHAKE_WANT_READ \<or> ret = SSL_HANDSHAKE_WANT_ACCEPT then
            Some (on_st (\<lambda>s. read_reschedule
                                (s\<lparr>read_ns := (read_ns s)\<lparr>triggered := False\<rparr>,
                                   read_ready_list := q_remove This (read_ready_list s)\<rparr>)) w)
          else if ret = SSL_HANDSHAKE_WANT_CONNECT \<or> ret = SSL_HANDSHAKE_WANT_WRITE then
            Some (on_st (\<lambda>s. write_reschedule
                                (s\<lparr>write_ns := (write_ns s)\<lparr>triggered := False\<rparr>,
                                   write_ready_list := q_remove This (write_ready_list s)\<rparr>)) w)
          else if ret = EVENT_DONE then
            Some (on_st (\<lambda>s.
                   let s1 = s\<lparr>write_ns := (write_ns s)\<lparr>triggered := True\<rparr>\<rparr>
                   in if enabled (write_ns s1)
                      then s1\<lparr>write_ready_list := in_or_enqueue This (write_ready_list s1)\<rparr>
                      else s1) w)
          else Some (on_st write_reschedule w))"

text \<open>\<open>write_to_net_io\<close> once it holds the VIO's mutex \<open>m\<close>.\<close>

definition write_to_net_io_locked :: "env \<Rightarrow> pmutex \<Rightarrow> world \<Rightarrow> world option" where
  "write_to_net_io_locked e m w =
     (let s = st w in
      if \<not> getSSLHandShakeComplete e s then write_handshake e w
      else if \<not> enabled (write_ns s) \<or> op (vio (write_ns s)) \<noteq> WRITE
      then Some (on_st write_disable w)
      else
        let ntd = ntodo (vio (write_ns s)) in
        if ntd \<le> 0 then Some (on_st write_disable w)
        else
          (case entry (buffer (vio (write_ns s))) of
             None \<Rightarrow> None
           | Some rd \<Rightarrow>
               let towrite = (if read_avail rd > ntd then ntd else read_avail rd) in
               if towrite \<noteq> ntd then
                 (case mbuf (buffer (vio (write_ns s))) of
                    None \<Rightarrow> None
                  | Some wb \<Rightarrow>
                      if write_avail wb \<noteq> 0 then
                        (case write_signal_and_update e VC_EVENT_WRITE_READY w of
                           None \<Rightarrow> None
                         | Some (ret, w1) \<Rightarrow>
                             if ret \<noteq> EVENT_CONT then Some w1
                             else
                               let ntd1 = ntodo (vio (write_ns (st w1))) in
                               if ntd1 \<le> 0 then Some (on_st write_disable w1)
                               else
                                 (case entry (buffer (vio (write_ns (st w1)))) of
                                    None \<Rightarrow> None
                                  | Some rd1 \<Rightarrow>
                                      write_to_net_io_write e m True
                                        (if read_avail rd1 > ntd1 then ntd1 else read_avail rd1) w1))
                      else write_to_net_io_write e m False towrite w)
               else write_to_net_io_write e m False towrite w))"

definition write_to_net_io :: "env \<Rightarrow> ethread \<Rightarrow> world \<Rightarrow> world option" where
  "write_to_net_io e thr w =
     (case mutex (vio (write_ns (st w))) of
        None \<Rightarrow> None
      | Some m \<Rightarrow>
          (case Mutex_trylock (Some thr) (mutexes (st w) m) of
             None \<Rightarrow> Some (on_st write_reschedule w)
           | Some pm \<Rightarrow>
               let w0 = on_st (lock_at m pm) w in
               map_option (on_st (unlock_at m))
                 (if Some m \<noteq> mutex (vio (write_ns (st w0))) then Some (on_st write_reschedule w0)
                  else write_to_net_io_locked e m w0)))"

definition write_to_net :: "env \<Rightarrow> ethread \<Rightarrow> world \<Rightarrow> world option" where
  "write_to_net e thr w = write_to_net_io e thr w"

subsection \<open>Timeouts: mainEvent\<close>

text \<open>
  The deadline that \<open>signal_timeout_at\<close> points to: the inactivity deadline for
  \<open>EVENT_IMMEDIATE\<close>, the activity deadline otherwise.
\<close>

definition signal_timeout_at :: "int \<Rightarrow> vstate \<Rightarrow> int" where
  "signal_timeout_at event s =
     (if event = EVENT_IMMEDIATE then next_inactivity_timeout_at s else next_activity_timeout_at s)"

definition clear_signal_timeout_at :: "int \<Rightarrow> vstate \<Rightarrow> vstate" where
  "clear_signal_timeout_at event s =
     (if event = EVENT_IMMEDIATE then s\<lparr>next_inactivity_timeout_at := 0\<rparr>
      else s\<lparr>next_activity_timeout_at := 0\<rparr>)"

definition signal_event :: "int \<Rightarrow> int" where
  "signal_event event =
     (if event = EVENT_IMMEDIATE then VC_EVENT_INACTIVITY_TIMEOUT else VC_EVENT_ACTIVE_TIMEOUT)"

text \<open>The second signal of \<open>mainEvent\<close>, towards the write side.\<close>

definition mainEvent_write ::
  "env \<Rightarrow> int \<Rightarrow> continuation option \<Rightarrow> continuation option \<Rightarrow> world \<Rightarrow> (int \<times> world) option" where
  "mainEvent_write e event reader_cont writer_cont w =
     (let s = st w in
      if signal_timeout_at event s = 0 \<and> closed s = 0 \<and> op (vio (write_ns s)) = WRITE \<and>
         f_shutdown s AND NET_VC_SHUTDOWN_WRITE = 0 \<and>
         reader_cont \<noteq> cont (vio (write_ns s)) \<and> writer_cont = cont (vio (write_ns s))
      then (case write_signal_and_update e (signal_event event) w of
              None \<Rightarrow> None
            | Some (ret, w1) \<Rightarrow> Some (EVENT_DONE, w1))
      else Some (EVENT_DONE, w))"

text \<open>\<open>mainEvent\<close> once it holds the three mutexes.\<close>

definition mainEvent_locked :: "env \<Rightarrow> int \<Rightarrow> bool \<Rightarrow> world \<Rightarrow> (int \<times> world) option" where
  "mainEvent_locked e event cancelled w =
     (if cancelled then Some (EVENT_DONE, w)
      else if event = EVENT_IMMEDIATE \<and>
              (inactivity_timeout_in (st w) = 0 \<or> next_inactivity_timeout_at (st w) > get_hrtime e)
      then Some (EVENT_CONT, w)
      else
        let s1 = clear_signal_timeout_at event (st w);
            writer_cont = cont (vio (write_ns s1))
        in if closed s1 \<noteq> 0
           then map_option (\<lambda>s'. (EVENT_DONE, w\<lparr>st := s'\<rparr>)) (close_UnixNetVConnection e s1 (thread s1))
           else if op (vio (read_ns s1)) = READ \<and> f_shutdown s1 AND NET_VC_SHUTDOWN_READ = 0
           then
             (case read_signal_and_update e (signal_event event) (w\<lparr>st := s1\<rparr>) of
                None \<Rightarrow> None
              | Some (ret, w1) \<Rightarrow>
                  if ret = EVENT_DONE then Some (EVENT_DONE, w1)
                  else mainEvent_write e event (cont (vio (read_ns s1))) writer_cont w1)
           else mainEvent_write e event None writer_cont (w\<lparr>st := s1\<rparr>))"

definition try_lock_at :: "ethread option \<Rightarrow> pmutex \<Rightarrow> vstate \<Rightarrow> bool \<times> vstate" where
  "try_lock_at t m s =
     (case Mutex_trylock t (mutexes s m) of
        None \<Rightarrow> (False, s)
      | Some pm \<Rightarrow> (True, lock_at m pm s))"

definition unlock_if :: "bool \<Rightarrow> pmutex \<Rightarrow> vstate \<Rightarrow> vstate" where
  "unlock_if locked m s = (if locked then unlock_at m s else s)"

text \<open>
  \<open>mainEvent e event cancelled\<close>: \<open>cancelled\<close> is the flag of the event \<open>e\<close>, whose thread
  is the running thread. The three try-locks are taken in order and given back, in the
  reverse order, when the function returns.
\<close>

definition mainEvent :: "env \<Rightarrow> int \<Rightarrow> bool \<Rightarrow> world \<Rightarrow> (int \<times> world) option" where
  "mainEvent e event cancelled w =
     (let s = st w;
          t = Some (this_ethread e);
          rm = (case mutex (vio (read_ns s)) of Some m \<Rightarrow> m | None \<Rightarrow> ethread_mutex e);
          wm = (case mutex (vio (write_ns s)) of Some m \<Rightarrow> m | None \<Rightarrow> ethread_mutex e)
      in case try_lock_at t (nh_mutex s) s of (hlock, sh) \<Rightarrow>
         case try_lock_at t rm sh of (rlock, sr) \<Rightarrow>
         case try_lock_at t wm sr of (wlock, sw) \<Rightarrow>
           let release = (\<lambda>x. unlock_if hlock (nh_mutex s) (unlock_if rlock rm (unlock_if wlock wm x)))
           in if \<not> hlock \<or> \<not> rlock \<or> \<not> wlock \<or>
                 (mutex (vio (read_ns sw)) \<noteq> None \<and> Some rm \<noteq> mutex (vio (read_ns sw))) \<or>
                 (mutex (vio (write_ns sw)) \<noteq> None \<and> Some wm \<noteq> mutex (vio (write_ns sw)))
              then Some (EVENT_CONT, w\<lparr>st := release sw\<rparr>)
              else map_option (\<lambda>(ret, w'). (ret, on_st release w'))
                     (mainEvent_locked e event cancelled (w\<lparr>st := sw\<rparr>)))"

subsection \<open>The invariant of the byte counts\<close>

text \<open>
  The invariant of a VIO, and of a connection: it holds of both VIOs.
\<close>

definition vio_inv :: "VIO \<Rightarrow> bool" where
  "vio_inv v = (ndone v \<le> nbytes v \<or> nbytes v = 0)"

definition vc_inv :: "vstate \<Rightarrow> bool" where
  "vc_inv s = (vio_inv (vio (read_ns s)) \<and> vio_inv (vio (write_ns s)))"

text \<open>
  The invariant on a world: on its state and on every state recorded in its trace, that
  is, on every state a continuation was called on.
\<close>

definition obs_inv :: "obs \<Rightarrow> bool" where
  "obs_inv x = (case x of Signal d ev s \<Rightarrow> vc_inv s | SysRead v r \<Rightarrow> True | SysWrite v r \<Rightarrow> True)"

definition world_inv :: "world \<Rightarrow> bool" where
  "world_inv w = (vc_inv (st w) \<and> list_all obs_inv (trace w))"

subsection \<open>Concrete connections and environments\<close>

text \<open>
  A connection as \<open>acceptEvent\<close> leaves it: open, owned by thread 1, registered with
  the NetHandler whose mutex (number 0) thread 1 holds, both VIOs idle. The
  environment \<open>env0\<close> runs on thread 1; its continuations do nothing and its kernel
  transfers every byte it is asked for.
\<close>

definition vio0 :: VIO where
  "vio0 = \<lparr>op = NONE, nbytes = 0, ndone = 0, cont = None, mutex = None, buffer = buffer_clear,
           vc_server = False\<rparr>"

definition ns0 :: NetState where
  "ns0 = \<lparr>enabled = False, triggered = False, in_enabled_list = False, vio = vio0\<rparr>"

definition vc0 :: vstate where
  "vc0 = \<lparr>closed = 0, recursion = 0, lerrno = 0, thread = Some 1, nh = True, vc_mutex = Some 2,
          read_ns = ns0, write_ns = ns0, f_shutdown = 0,
          inactivity_timeout_in = 0, active_timeout_in = 0,
          next_inactivity_timeout_at = 0, next_activity_timeout_at = 0,
          write_buffer_empty_event = 0, ep = [], con_fd = 5, sock_shutdown = [], oob_ptr = False,
          freed = 0, nh_mutex = 0, open_list = [This], cop_list = [],
          read_ready_list = [], write_ready_list = [], read_enable_list = [], write_enable_list = [],
          in_keep_alive_queue = False, in_active_queue = False, trigger_event = False,
          signal_hook_calls = 0,
          mutexes = (\<lambda>m. if m = 0 then \<lparr>thread_holding = Some 1, nthread_holding = 1\<rparr>
                          else \<lparr>thread_holding = None, nthread_holding = 0\<rparr>),
          cont_mutex = (\<lambda>c. Some 3)\<rparr>"

definition env0 :: env where
  "env0 = \<lparr>handleEvent = (\<lambda>c ev d s. Some s),
           socket_read = (\<lambda>k v. sum_list v), socket_write = (\<lambda>k v. sum_list v),
           get_hrtime = 1000, this_ethread = 1, ethread_mutex = 9, NET_MAX_IOV = 16,
           getSSLHandShakeComplete = (\<lambda>s. True), getSSLClientConnection = (\<lambda>s. False),
           sslStartHandShake = (\<lambda>m s. (EVENT_DONE, 0))\<rparr>"

text \<open>
  A connection in the middle of a read: the read VIO belongs to continuation 7, whose
  mutex (number 3) thread 1 holds; the direction is enabled and the reactor has seen
  readiness, but the connection is on no ready list.
\<close>

definition vc_triggered :: vstate where
  "vc_triggered =
     vc0\<lparr>read_ns := \<lparr>enabled = True, triggered = True, in_enabled_list = False,
                      vio = vio0\<lparr>op := READ, nbytes := 100, cont := Some 7, mutex := Some 3,
                                 buffer := writer_for [4096], vc_server := True\<rparr>\<rparr>,
         mutexes := (\<lambda>m. if m = 0 \<or> m = 3 then \<lparr>thread_holding = Some 1, nthread_holding = 1\<rparr>
                         else \<lparr>thread_holding = None, nthread_holding = 0\<rparr>)\<rparr>"

text \<open>The environment \<open>env0\<close> with a kernel that answers every read with \<open>x\<close>.\<close>

definition env_rd :: "int \<Rightarrow> env" where
  "env_rd x = env0\<lparr>socket_read := (\<lambda>k v. x)\<rparr>"

text \<open>
  Worlds for a read pass: \<open>vc_triggered\<close> on the read-ready list, with room for 4096
  bytes (\<open>w_ready\<close>) and with a buffer whose blocks are full (\<open>w_full\<close>).
\<close>

definition w_ready :: world where
  "w_ready = \<lparr>st = vc_triggered\<lparr>read_ready_list := [This]\<rparr>, trace = []\<rparr>"

definition w_full :: world where
  "w_full = \<lparr>st = vc_triggered\<lparr>read_ready_list := [This],
                  read_ns := (read_ns vc_triggered)\<lparr>vio := (vio (read_ns vc_triggered))\<lparr>buffer := writer_for [0, 0]\<rparr>\<rparr>\<rparr>,
             trace = []\<rparr>"

text \<open>
  A world for a short read: room in three blocks of 4 bytes, 10 bytes wanted, a vector of
  one entry, and a kernel (\<open>env_short\<close>) that fills the first vector and moves 2 bytes
  of the second.
\<close>

definition env_short :: env where
  "env_short = env0\<lparr>socket_read := (\<lambda>k v. if k = 0 then sum_list v else 2), NET_MAX_IOV := 1\<rparr>"

definition w_blocks :: world where
  "w_blocks = \<lparr>st = vc_triggered\<lparr>read_ready_list := [This],
                  read_ns := (read_ns vc_triggered)\<lparr>vio := (vio (read_ns vc_triggered))
                      \<lparr>nbytes := 10, buffer := writer_for [4, 4, 4]\<rparr>\<rparr>\<rparr>,
               trace = []\<rparr>"

text \<open>
  A world for a timeout: the read VIO belongs to continuation 7, the write VIO to
  continuation \<open>c\<close>; the activity deadline is armed.
\<close>

definition w_timeout :: "continuation \<Rightarrow> world" where
  "w_timeout c =
     \<lparr>st = vc_triggered\<lparr>write_ns := \<lparr>enabled = True, triggered = False, in_enabled_list = False,
              vio = vio0\<lparr>op := WRITE, nbytes := 50, cont := Some c, mutex := Some 4,
                         buffer := reader_for \<lparr>start_offset = 0, block = [50], reader_mbuf = [10]\<rparr>,
                         vc_server := True\<rparr>\<rparr>,
           active_timeout_in := 30, next_activity_timeout_at := 900\<rparr>,
      trace = []\<rparr>"

section \<open>Properties\<close>

lemmas const_defs =
  EVENT_DONE_def EVENT_CONT_def EVENT_IMMEDIATE_def EVENT_INTERVAL_def EVENT_ERROR_def
  VC_EVENT_READ_READY_def VC_EVENT_WRITE_READY_def VC_EVENT_READ_COMPLETE_def
  VC_EVENT_WRITE_COMPLETE_def VC_EVENT_EOS_def VC_EVENT_ERROR_def
  VC_EVENT_INACTIVITY_TIMEOUT_def VC_EVENT_ACTIVE_TIMEOUT_def
  EAGAIN_def ECONNRESET_def ENOTCONN_def NO_FD_def
  NET_VC_SHUTDOWN_READ_def NET_VC_SHUTDOWN_WRITE_def

subsection \<open>Closing\<close>

lemma close_UnixNetVConnection_effect:
  "close_UnixNetVConnection e s t = Some s' \<Longrightarrow>
     freed s' = freed s + 1 \<and> ep s' = ep s @ [EpStop] \<and> con_fd s' = NO_FD \<and> closed s' = 0"
  by (auto simp: close_UnixNetVConnection_def free_def cancel_OOB_def Let_def split: if_splits)

lemma close_UnixNetVConnection_returns:
  "(\<exists>s'. close_UnixNetVConnection e s t = Some s') = (thread s = t \<and> t = Some (this_ethread e))"
  by (auto simp: close_UnixNetVConnection_def free_def cancel_OOB_def Let_def)

text \<open>
  C4. \<open>do_io_close\<close> calls \<open>close_UnixNetVConnection\<close> inline exactly when
  \<open>recursion\<close> is 0 and either \<open>nh\<close> is null or the running thread holds \<open>nh->mutex\<close>.
  The call shows in the state: the polling binding is stopped, the socket closed and the
  object freed. Otherwise the function returns with none of that done, \<open>closed\<close> set to 1
  for the sentinel \<open>-1\<close> and to \<open>-1\<close> for any other argument, and the argument stored in
  \<open>lerrno\<close> when it is neither 0 nor the sentinel. The deferred case always returns; the
  inline case returns when the connection's thread is the running thread (the release
  assertions of \<open>close_UnixNetVConnection\<close> and \<open>free\<close>).
\<close>

theorem C4_do_io_close_inline_iff:
  fixes e :: env and alerrno :: int and s :: vstate
  defines "inl \<equiv> recursion s = 0 \<and>
                  (\<not> nh s \<or> thread_holding (mutexes s (nh_mutex s)) = Some (this_ethread e))"
  shows "(\<forall>s'. do_io_close e alerrno s = Some s' \<longrightarrow>
            ((freed s' = freed s + 1) = inl) \<and>
            (inl \<longrightarrow> ep s' = ep s @ [EpStop] \<and> con_fd s' = NO_FD) \<and>
            (\<not> inl \<longrightarrow>
               closed s' = (if alerrno = - 1 then 1 else - 1) \<and>
               lerrno s' = (if alerrno \<noteq> 0 \<and> alerrno \<noteq> - 1 then alerrno else lerrno s) \<and>
               ep s' = ep s \<and> con_fd s' = con_fd s \<and> freed s' = freed s \<and>
               open_list s' = open_list s \<and> nh s' = nh s)) \<and>
         (\<not> inl \<longrightarrow> do_io_close e alerrno s \<noteq> None) \<and>
         (inl \<longrightarrow> (do_io_close e alerrno s \<noteq> None) = (thread s = Some (this_ethread e)))"
proof -
  have ci: "close_inline e (do_io_close_prepare s) = inl"
    by (simp add: close_inline_def do_io_close_prepare_def inl_def)
  have a: "((freed s' = freed s + 1) = inl) \<and>
           (inl \<longrightarrow> ep s' = ep s @ [EpStop] \<and> con_fd s' = NO_FD) \<and>
           (\<not> inl \<longrightarrow>
               closed s' = (if alerrno = - 1 then 1 else - 1) \<and>
               lerrno s' = (if alerrno \<noteq> 0 \<and> alerrno \<noteq> - 1 then alerrno else lerrno s) \<and>
               ep s' = ep s \<and> con_fd s' = con_fd s \<and> freed s' = freed s \<and>
               open_list s' = open_list s \<and> nh s' = nh s)"
    if "do_io_close e alerrno s = Some s'" for s'
  proof (cases inl)
    case True
    with that ci show ?thesis
      by (auto simp: do_io_close_def Let_def do_io_close_prepare_def
            dest!: close_UnixNetVConnection_effect split: if_splits)
  next
    case False
    with that ci show ?thesis
      by (auto simp: do_io_close_def Let_def do_io_close_prepare_def split: if_splits)
  qed
  have b: "\<not> inl \<longrightarrow> do_io_close e alerrno s \<noteq> None"
    using ci by (simp add: do_io_close_def Let_def)
  have c: "inl \<longrightarrow> (do_io_close e alerrno s \<noteq> None) = (thread s = Some (this_ethread e))"
    using ci
    by (auto simp: do_io_close_def Let_def close_UnixNetVConnection_returns do_io_close_prepare_def)
  from a b c show ?thesis by blast
qed

theorem C4_do_io_close_witness:
  "freed (the (do_io_close env0 (- 1) vc0)) = 1 \<and>
   ep (the (do_io_close env0 (- 1) vc0)) = [EpStop] \<and>
   do_io_close env0 (- 1) vc0 \<noteq> None \<and>
   do_io_close env0 5 (vc0\<lparr>recursion := 1\<rparr>) \<noteq> None \<and>
   freed (the (do_io_close env0 5 (vc0\<lparr>recursion := 1\<rparr>))) = 0 \<and>
   closed (the (do_io_close env0 5 (vc0\<lparr>recursion := 1\<rparr>))) = - 1 \<and>
   lerrno (the (do_io_close env0 5 (vc0\<lparr>recursion := 1\<rparr>))) = 5 \<and>
   closed (the (do_io_close env0 (- 1) (vc0\<lparr>recursion := 1\<rparr>))) = 1"
proof -
  have i: "recursion vc0 = 0 \<and> thread_holding (mutexes vc0 (nh_mutex vc0)) = Some (this_ethread env0)
           \<and> thread vc0 = Some (this_ethread env0)"
    by (simp add: vc0_def env0_def)
  have d: "recursion (vc0\<lparr>recursion := 1\<rparr>) \<noteq> 0" by simp
  from C4_do_io_close_inline_iff [of env0 "- 1" vc0] i
  have 1: "do_io_close env0 (- 1) vc0 \<noteq> None" by simp
  then obtain s1 where s1: "do_io_close env0 (- 1) vc0 = Some s1" by auto
  from C4_do_io_close_inline_iff [of env0 "- 1" vc0] i s1
  have 2: "freed s1 = freed vc0 + 1 \<and> ep s1 = ep vc0 @ [EpStop]" by simp
  from C4_do_io_close_inline_iff [of env0 5 "vc0\<lparr>recursion := 1\<rparr>"] d
  have 3: "do_io_close env0 5 (vc0\<lparr>recursion := 1\<rparr>) \<noteq> None" by simp
  then obtain s2 where s2: "do_io_close env0 5 (vc0\<lparr>recursion := 1\<rparr>) = Some s2" by auto
  from C4_do_io_close_inline_iff [of env0 5 "vc0\<lparr>recursion := 1\<rparr>"] d s2
  have 4: "closed s2 = - 1 \<and> lerrno s2 = 5 \<and> freed s2 = freed vc0" by simp
  from C4_do_io_close_inline_iff [of env0 "- 1" "vc0\<lparr>recursion := 1\<rparr>"] d
  have 5: "do_io_close env0 (- 1) (vc0\<lparr>recursion := 1\<rparr>) \<noteq> None" by simp
  then obtain s3 where s3: "do_io_close env0 (- 1) (vc0\<lparr>recursion := 1\<rparr>) = Some s3" by auto
  from C4_do_io_close_inline_iff [of env0 "- 1" "vc0\<lparr>recursion := 1\<rparr>"] d s3
  have 6: "closed s3 = 1" by simp
  from 1 2 3 4 6 s1 s2 s3 show ?thesis by (simp add: vc0_def)
qed

subsection \<open>Shutting down\<close>

text \<open>
  C6. The claim is that a shutdown bit, once set, stays set, so that
  \<open>do_io_shutdown(IO_SHUTDOWN_WRITE)\<close> after \<open>do_io_shutdown(IO_SHUTDOWN_READ)\<close> leaves
  both bits set. The code assigns the field instead of adding the bit: on the
  connection \<open>vc0\<close> the two calls leave \<open>f.shutdown\<close> equal to
  \<open>NET_VC_SHUTDOWN_WRITE\<close>, with the READ bit cleared, although both halves of the
  socket have been shut down; the single call with \<open>IO_SHUTDOWN_READWRITE\<close> sets both bits.
\<close>

theorem C6_do_io_shutdown_overwrites:
  "f_shutdown (do_io_shutdown IO_SHUTDOWN_WRITE (do_io_shutdown IO_SHUTDOWN_READ vc0))
     = NET_VC_SHUTDOWN_WRITE \<and>
   f_shutdown (do_io_shutdown IO_SHUTDOWN_WRITE (do_io_shutdown IO_SHUTDOWN_READ vc0))
     AND NET_VC_SHUTDOWN_READ = 0 \<and>
   f_shutdown (do_io_shutdown IO_SHUTDOWN_READ vc0) AND NET_VC_SHUTDOWN_READ = NET_VC_SHUTDOWN_READ \<and>
   sock_shutdown (do_io_shutdown IO_SHUTDOWN_WRITE (do_io_shutdown IO_SHUTDOWN_READ vc0)) = [0, 1] \<and>
   f_shutdown (do_io_shutdown IO_SHUTDOWN_READWRITE vc0) AND NET_VC_SHUTDOWN_READ
     = NET_VC_SHUTDOWN_READ \<and>
   f_shutdown (do_io_shutdown IO_SHUTDOWN_READWRITE vc0) AND NET_VC_SHUTDOWN_WRITE
     = NET_VC_SHUTDOWN_WRITE"
  by (simp add: do_io_shutdown_def vc0_def NET_VC_SHUTDOWN_WRITE_def NET_VC_SHUTDOWN_READ_def)

lemma do_io_shutdown_write_after_read:
  "f_shutdown (do_io_shutdown IO_SHUTDOWN_WRITE (do_io_shutdown IO_SHUTDOWN_READ s))
     = NET_VC_SHUTDOWN_WRITE"
  by (simp add: do_io_shutdown_def)

subsection \<open>Signals without a continuation\<close>

lemma signal_and_update_null:
  assumes ev: "event = VC_EVENT_EOS \<or> event = VC_EVENT_ERROR \<or>
               event = VC_EVENT_ACTIVE_TIMEOUT \<or> event = VC_EVENT_INACTIVITY_TIMEOUT"
      and nc: "cont (vio (netstate d (st w))) = None"
  shows "signal_and_update e d event w =
           (if recursion (st w) = 0
            then map_option (\<lambda>s'. (EVENT_DONE,
                     \<lparr>st = s', trace = trace w @ [Signal d event ((st w)\<lparr>recursion := recursion (st w) + 1\<rparr>)]\<rparr>))
                   (close_UnixNetVConnection e ((st w)\<lparr>closed := 1\<rparr>) (thread (st w)))
            else Some (EVENT_CONT,
                   \<lparr>st = (st w)\<lparr>closed := 1\<rparr>,
                    trace = trace w @ [Signal d event ((st w)\<lparr>recursion := recursion (st w) + 1\<rparr>)]\<rparr>))"
proof -
  have n1: "cont (vio (netstate d ((st w)\<lparr>recursion := recursion (st w) + 1\<rparr>))) = None"
    using nc by (cases d) (simp_all add: netstate_def)
  show ?thesis
    using ev
    apply (simp add: signal_and_update_def Let_def n1 map_option_case split del: if_split cong: if_cong)
    apply (clarsimp split: option.split)
    done
qed

text \<open>
  C9. A signal of \<open>VC_EVENT_EOS\<close>, \<open>VC_EVENT_ERROR\<close>, \<open>VC_EVENT_ACTIVE_TIMEOUT\<close> or
  \<open>VC_EVENT_INACTIVITY_TIMEOUT\<close> for a direction whose VIO has no continuation sets
  \<open>closed\<close> to 1, in \<open>read_signal_and_update\<close> and in \<open>write_signal_and_update\<close>. When the
  recursion counter is back at 0 the connection is closed on the spot, by
  \<open>close_UnixNetVConnection\<close> on the state with \<open>closed = 1\<close>, and the result is
  \<open>EVENT_DONE\<close>; in a nested call the flag stays for the outermost frame, and the
  result is \<open>EVENT_CONT\<close>.
\<close>

theorem C9_null_cont_closes:
  assumes ev: "event = VC_EVENT_EOS \<or> event = VC_EVENT_ERROR \<or>
               event = VC_EVENT_ACTIVE_TIMEOUT \<or> event = VC_EVENT_INACTIVITY_TIMEOUT"
  shows "(cont (vio (read_ns (st w))) = None \<longrightarrow>
            read_signal_and_update e event w =
              (if recursion (st w) = 0
               then map_option (\<lambda>s'. (EVENT_DONE,
                        \<lparr>st = s', trace = trace w @ [Signal ReadVIO event ((st w)\<lparr>recursion := recursion (st w) + 1\<rparr>)]\<rparr>))
                      (close_UnixNetVConnection e ((st w)\<lparr>closed := 1\<rparr>) (thread (st w)))
               else Some (EVENT_CONT,
                      \<lparr>st = (st w)\<lparr>closed := 1\<rparr>,
                       trace = trace w @ [Signal ReadVIO event ((st w)\<lparr>recursion := recursion (st w) + 1\<rparr>)]\<rparr>))) \<and>
         (cont (vio (write_ns (st w))) = None \<longrightarrow>
            write_signal_and_update e event w =
              (if recursion (st w) = 0
               then map_option (\<lambda>s'. (EVENT_DONE,
                        \<lparr>st = s', trace = trace w @ [Signal WriteVIO event ((st w)\<lparr>recursion := recursion (st w) + 1\<rparr>)]\<rparr>))
                      (close_UnixNetVConnection e ((st w)\<lparr>closed := 1\<rparr>) (thread (st w)))
               else Some (EVENT_CONT,
                      \<lparr>st = (st w)\<lparr>closed := 1\<rparr>,
                       trace = trace w @ [Signal WriteVIO event ((st w)\<lparr>recursion := recursion (st w) + 1\<rparr>)]\<rparr>)))"
  using signal_and_update_null [OF ev, of ReadVIO w e] signal_and_update_null [OF ev, of WriteVIO w e]
  by (simp add: read_signal_and_update_def write_signal_and_update_def netstate_def)

theorem C9_null_cont_closes_witness:
  "fst (the (read_signal_and_update env0 VC_EVENT_EOS \<lparr>st = vc0, trace = []\<rparr>)) = EVENT_DONE \<and>
   freed (st (snd (the (read_signal_and_update env0 VC_EVENT_EOS \<lparr>st = vc0, trace = []\<rparr>)))) = 1 \<and>
   fst (the (write_signal_and_update env0 VC_EVENT_INACTIVITY_TIMEOUT
               \<lparr>st = vc0\<lparr>recursion := 2\<rparr>, trace = []\<rparr>)) = EVENT_CONT \<and>
   closed (st (snd (the (write_signal_and_update env0 VC_EVENT_INACTIVITY_TIMEOUT
               \<lparr>st = vc0\<lparr>recursion := 2\<rparr>, trace = []\<rparr>)))) = 1"
  using C9_null_cont_closes [of VC_EVENT_EOS "\<lparr>st = vc0, trace = []\<rparr>" env0]
    C9_null_cont_closes [of VC_EVENT_INACTIVITY_TIMEOUT "\<lparr>st = vc0\<lparr>recursion := 2\<rparr>, trace = []\<rparr>" env0]
  by (simp add: vc0_def ns0_def vio0_def env0_def close_UnixNetVConnection_def free_def
        cancel_OOB_def Let_def q_remove_def)

subsection \<open>Starting I/O on a closed connection\<close>

text \<open>
  C10. \<open>do_io_read\<close> and \<open>do_io_write\<close> on a connection whose \<open>closed\<close> flag is not 0
  return the null pointer and leave the whole state as it was: no field of a VIO is
  written and nothing is enabled or disabled.
\<close>

theorem C10_do_io_on_closed:
  "closed s \<noteq> 0 \<Longrightarrow>
     do_io_read e c nb buf s = Some (None, s) \<and> do_io_write e c' nb' reader s = Some (None, s)"
  by (simp add: do_io_read_def do_io_write_def)

theorem C10_do_io_on_closed_witness:
  "closed (vc0\<lparr>closed := 1\<rparr>) \<noteq> 0 \<and>
   do_io_read env0 (Some 7) 100 (Some [4096]) (vc0\<lparr>closed := 1\<rparr>) = Some (None, vc0\<lparr>closed := 1\<rparr>) \<and>
   do_io_write env0 (Some 7) 100 (Some \<lparr>start_offset = 0, block = [10], reader_mbuf = []\<rparr>)
     (vc0\<lparr>closed := 1\<rparr>) = Some (None, vc0\<lparr>closed := 1\<rparr>) \<and>
   do_io_read env0 (Some 7) 100 (Some [4096]) vc0 \<noteq> Some (None, vc0)"
proof -
  have c: "closed (vc0\<lparr>closed := 1\<rparr>) \<noteq> 0" by simp
  have n: "do_io_read env0 (Some 7) 100 (Some [4096]) vc0 \<noteq> Some (None, vc0)"
    by (simp add: do_io_read_def vc0_def Let_def ns0_def VIO_reenable_def map_option_case
          split: option.split)
  from C10_do_io_on_closed [OF c, of env0 "Some 7" 100 "Some [4096]" "Some 7" 100
         "Some \<lparr>start_offset = 0, block = [10], reader_mbuf = []\<rparr>"] c n
  show ?thesis by simp
qed

subsection \<open>Re-enabling\<close>

lemma in_or_enqueue_mem: "This \<in> set (in_or_enqueue This q)"
  by (simp add: in_or_enqueue_def)

lemma q_remove_mem: "This \<notin> set (q_remove This q)"
  by (simp add: q_remove_def)

lemma reenable_owned_effect:
  "enabled (netstate d (reenable_owned d s)) = enabled (netstate d s) \<and>
   triggered (netstate d (reenable_owned d s)) = triggered (netstate d s) \<and>
   ep (reenable_owned d s) = ep s @ [EpModify (eventio_of d), EpRefresh (eventio_of d)] \<and>
   (This \<in> set (ready_list d (reenable_owned d s))) = triggered (netstate d s)"
  by (cases d)
     (simp_all add: reenable_owned_def netstate_def eventio_of_def ready_list_def Let_def
        in_or_enqueue_mem q_remove_mem)

lemma set_enabled_effect:
  "enabled (netstate d (set_enabled e d s)) \<and>
   triggered (netstate d (set_enabled e d s)) = triggered (netstate d s) \<and>
   mutex (vio (netstate d (set_enabled e d s))) = mutex (vio (netstate d s)) \<and>
   ep (set_enabled e d s) = ep s \<and> thread (set_enabled e d s) = thread s \<and>
   nh (set_enabled e d s) = nh s \<and> nh_mutex (set_enabled e d s) = nh_mutex s \<and>
   mutexes (set_enabled e d s) = mutexes s"
  by (cases d) (simp_all add: set_enabled_def netstate_def netstate_update_def Let_def)

lemma lock_unlock_frame:
  "enabled (netstate d (unlock_at m s)) = enabled (netstate d s) \<and>
   triggered (netstate d (unlock_at m s)) = triggered (netstate d s) \<and>
   ep (unlock_at m s) = ep s \<and> ready_list d (unlock_at m s) = ready_list d s \<and>
   enabled (netstate d (lock_at m pm s)) = enabled (netstate d s) \<and>
   triggered (netstate d (lock_at m pm s)) = triggered (netstate d s) \<and>
   ep (lock_at m pm s) = ep s \<and> ready_list d (lock_at m pm s) = ready_list d s"
  by (cases d) (simp_all add: unlock_at_def lock_at_def netstate_def ready_list_def)

text \<open>
  C5, as the code has it. The claim holds for a direction that is disabled on entry, on
  a connection that has a thread: when the caller, who holds the VIO's mutex, also
  holds the NetHandler's mutex or can take it, \<open>reenable\<close> sets \<open>enabled\<close>, performs
  \<open>ep.modify\<close> and \<open>ep.refresh\<close> for the direction and leaves the connection on the
  ready list exactly when \<open>triggered\<close> is set. Whenever it returns, \<open>enabled\<close> is set.
  For a direction that is enabled on entry the function returns at once and the state
  is untouched: the polling interest is not installed again and the ready list is not
  brought in line with \<open>triggered\<close>.
\<close>

theorem C5_reenable:
  assumes vm: "mutex (vio (netstate d s)) = Some vm"
      and hold: "thread_holding (mutexes s vm) = Some t"
  shows "(enabled (netstate d s) \<longrightarrow> reenable e d s = Some s) \<and>
         (\<forall>s'. reenable e d s = Some s' \<longrightarrow> enabled (netstate d s')) \<and>
         (\<not> enabled (netstate d s) \<and> thread s \<noteq> None \<and> nh s \<and>
          (thread_holding (mutexes s (nh_mutex s)) = Some t \<or>
           thread_holding (mutexes s (nh_mutex s)) = None) \<longrightarrow>
            (\<exists>s'. reenable e d s = Some s' \<and> enabled (netstate d s') \<and>
                  ep s' = ep s @ [EpModify (eventio_of d), EpRefresh (eventio_of d)] \<and>
                  (This \<in> set (ready_list d s')) = triggered (netstate d s') \<and>
                  triggered (netstate d s') = triggered (netstate d s)))"
proof (intro conjI allI impI)
  assume "enabled (netstate d s)"
  then show "reenable e d s = Some s" by (simp add: reenable_def)
next
  fix s' assume r: "reenable e d s = Some s'"
  have rr: "enabled (netstate d (reenable_remote d x)) = enabled (netstate d x)" for x
    by (cases d) (simp_all add: reenable_remote_def netstate_def Let_def)
  from r show "enabled (netstate d s')"
    using set_enabled_effect [of d e s] vm
    by (auto simp: reenable_def Let_def reenable_owned_effect lock_unlock_frame rr
          split: if_splits option.splits)
next
  assume a: "\<not> enabled (netstate d s) \<and> thread s \<noteq> None \<and> nh s \<and>
          (thread_holding (mutexes s (nh_mutex s)) = Some t \<or>
           thread_holding (mutexes s (nh_mutex s)) = None)"
  let ?s1 = "set_enabled e d s"
  note se = set_enabled_effect [of d e s]
  show "\<exists>s'. reenable e d s = Some s' \<and> enabled (netstate d s') \<and>
            ep s' = ep s @ [EpModify (eventio_of d), EpRefresh (eventio_of d)] \<and>
            (This \<in> set (ready_list d s')) = triggered (netstate d s') \<and>
            triggered (netstate d s') = triggered (netstate d s)"
  proof (cases "thread_holding (mutexes s (nh_mutex s)) = Some t")
    case True
    with a se vm hold have "reenable e d s = Some (reenable_owned d ?s1)"
      by (auto simp: reenable_def Let_def)
    then show ?thesis using se by (simp add: reenable_owned_effect)
  next
    case False
    with a have n: "thread_holding (mutexes s (nh_mutex s)) = None" by simp
    then obtain pm where pm: "Mutex_trylock (Some t) (mutexes s (nh_mutex s)) = Some pm"
      by (simp add: Mutex_trylock_def)
    with a se vm hold n
    have "reenable e d s = Some (unlock_at (nh_mutex s) (reenable_owned d (lock_at (nh_mutex s) pm ?s1)))"
      by (auto simp: reenable_def Let_def)
    then show ?thesis using se by (simp add: reenable_owned_effect lock_unlock_frame)
  qed
qed

text \<open>
  The claim C5 as stated fails where the direction is already enabled: on
  \<open>vc_triggered\<close> the caller holds both mutexes, \<open>reenable\<close> returns the state as it
  was, with no operation on the polling binding, and the connection stays off the
  read-ready list although \<open>triggered\<close> is set.
\<close>

theorem C5_reenable_counterexample:
  "reenable env0 ReadVIO vc_triggered = Some vc_triggered \<and>
   mutex (vio (read_ns vc_triggered)) = Some 3 \<and>
   thread_holding (mutexes vc_triggered 3) = Some (this_ethread env0) \<and>
   thread_holding (mutexes vc_triggered (nh_mutex vc_triggered)) = Some (this_ethread env0) \<and>
   enabled (read_ns vc_triggered) \<and> triggered (read_ns vc_triggered) \<and>
   This \<notin> set (read_ready_list vc_triggered) \<and>
   ep vc_triggered = []"
  by (simp add: reenable_def vc_triggered_def vc0_def netstate_def env0_def)

theorem C5_reenable_witness:
  "reenable env0 ReadVIO (vc_triggered\<lparr>read_ns := (read_ns vc_triggered)\<lparr>enabled := False\<rparr>\<rparr>) \<noteq> None \<and>
   ep (the (reenable env0 ReadVIO (vc_triggered\<lparr>read_ns := (read_ns vc_triggered)\<lparr>enabled := False\<rparr>\<rparr>)))
     = [EpModify EVENTIO_READ, EpRefresh EVENTIO_READ] \<and>
   This \<in> set (read_ready_list
       (the (reenable env0 ReadVIO (vc_triggered\<lparr>read_ns := (read_ns vc_triggered)\<lparr>enabled := False\<rparr>\<rparr>)))) \<and>
   enabled (read_ns
       (the (reenable env0 ReadVIO (vc_triggered\<lparr>read_ns := (read_ns vc_triggered)\<lparr>enabled := False\<rparr>\<rparr>))))"
proof -
  let ?s = "vc_triggered\<lparr>read_ns := (read_ns vc_triggered)\<lparr>enabled := False\<rparr>\<rparr>"
  have h: "mutex (vio (netstate ReadVIO ?s)) = Some 3" "thread_holding (mutexes ?s 3) = Some 1"
    "\<not> enabled (netstate ReadVIO ?s) \<and> thread ?s \<noteq> None \<and> nh ?s \<and>
     (thread_holding (mutexes ?s (nh_mutex ?s)) = Some 1 \<or> thread_holding (mutexes ?s (nh_mutex ?s)) = None)"
    "triggered (netstate ReadVIO ?s)" "ep ?s = []"
    by (simp_all add: vc_triggered_def vc0_def netstate_def vio0_def)
  from C5_reenable [OF h(1) h(2), of env0] h(3)
  obtain s' where "reenable env0 ReadVIO ?s = Some s'" "enabled (netstate ReadVIO s')"
    "ep s' = ep ?s @ [EpModify (eventio_of ReadVIO), EpRefresh (eventio_of ReadVIO)]"
    "(This \<in> set (ready_list ReadVIO s')) = triggered (netstate ReadVIO s')"
    "triggered (netstate ReadVIO s') = triggered (netstate ReadVIO ?s)"
    by blast
  with h(4) h(5) show ?thesis by (simp add: netstate_def ready_list_def eventio_of_def)
qed

subsection \<open>The read loop\<close>

declare read_loop.simps [simp del]

lemma read_fill_iov_sum:
  "read_fill_iov mi lim b tv ra = (tv', ra', b') \<Longrightarrow> sum_list tv = ra \<Longrightarrow> sum_list tv' = ra'"
  by (induction mi lim b tv ra rule: read_fill_iov.induct) (auto simp: Let_def split: if_splits)

lemma read_fill_iov_range:
  "read_fill_iov mi lim b tv ra = (tv', ra', b') \<Longrightarrow>
     ra' = ra \<or> ra' = lim \<or> (ra < ra' \<and> ra' < lim)"
proof (induction mi lim b tv ra rule: read_fill_iov.induct)
  case (1 max_iov lim tiovec rattempted)
  then show ?case by simp
next
  case (2 max_iov lim a b tiovec rattempted)
  show ?case
  proof (cases "length tiovec < max_iov \<and> a > 0 \<and> a < lim - rattempted")
    case True
    with "2.prems" have "read_fill_iov max_iov lim b (tiovec @ [a]) (rattempted + a) = (tv', ra', b')"
      by (simp add: Let_def)
    with "2.IH"(1) [of "lim - rattempted" a] True show ?thesis by auto
  next
    case False
    with "2.prems" "2.IH"(2) show ?thesis by (auto simp: Let_def split: if_splits)
  qed
qed

lemma read_loop_calls:
  "read_loop mi rd toread b T cs = (r, ra, tot, calls) \<Longrightarrow> T = sum_list (map snd cs) \<Longrightarrow>
     calls \<noteq> [] \<and> snd (last calls) = r \<and> sum_list (fst (last calls)) = ra \<and>
     r = rd (length calls - 1) (fst (last calls)) \<and>
     tot - ra = sum_list (map snd (butlast calls)) \<and> length cs < length calls \<and> take (length cs) calls = cs"
proof (induction mi rd toread b T cs rule: read_loop.induct)
  case (1 max_iov rd toread b total_read calls0)
  obtain tv ra0 b' where f: "read_fill_iov max_iov (toread - total_read) b [] 0 = (tv, ra0, b')"
    by (cases "read_fill_iov max_iov (toread - total_read) b [] 0") auto
  from read_fill_iov_sum [OF f] have s: "sum_list tv = ra0" by simp
  let ?r = "rd (length calls0) tv"
  show ?case
  proof (cases "ra0 \<noteq> 0 \<and> ?r = ra0 \<and> total_read + ra0 < toread")
    case True
    with "1.prems"(1) f
    have l: "read_loop max_iov rd toread b' (total_read + ra0) (calls0 @ [(tv, ?r)]) = (r, ra, tot, calls)"
      by (subst (asm) read_loop.simps) (simp add: Let_def)
    have "total_read + ra0 = sum_list (map snd (calls0 @ [(tv, ?r)]))"
      using True "1.prems"(2) by simp
    from "1.IH" [OF f [symmetric] refl refl refl refl True l this]
    show ?thesis by (auto simp: take_Suc_conv_app_nth dest: arg_cong [where f = "take (length calls0)"])
  next
    case False
    with "1.prems"(1) f
    have "(r, ra, tot, calls) = (?r, ra0, total_read + ra0, calls0 @ [(tv, ?r)])"
      by (subst (asm) read_loop.simps) (auto simp: Let_def)
    with s "1.prems"(2) show ?thesis by simp
  qed
qed

lemma read_loop_progress:
  "read_loop mi rd toread b T cs = (r, ra, tot, calls) \<Longrightarrow> T \<le> tot - ra"
proof (induction mi rd toread b T cs rule: read_loop.induct)
  case (1 max_iov rd toread b total_read calls0)
  obtain tv ra0 b' where f: "read_fill_iov max_iov (toread - total_read) b [] 0 = (tv, ra0, b')"
    by (cases "read_fill_iov max_iov (toread - total_read) b [] 0") auto
  from read_fill_iov_range [OF f]
  have rg: "ra0 = 0 \<or> ra0 = toread - total_read \<or> (0 < ra0 \<and> ra0 < toread - total_read)" by simp
  let ?r = "rd (length calls0) tv"
  show ?case
  proof (cases "ra0 \<noteq> 0 \<and> ?r = ra0 \<and> total_read + ra0 < toread")
    case True
    with "1.prems"(1) f
    have l: "read_loop max_iov rd toread b' (total_read + ra0) (calls0 @ [(tv, ?r)]) = (r, ra, tot, calls)"
      by (subst (asm) read_loop.simps) (simp add: Let_def)
    from "1.IH" [OF f [symmetric] refl refl refl refl True l] True rg show ?thesis by auto
  next
    case False
    with "1.prems"(1) f
    have "(r, ra, tot, calls) = (?r, ra0, total_read + ra0, calls0 @ [(tv, ?r)])"
      by (subst (asm) read_loop.simps) (auto simp: Let_def)
    then show ?thesis by simp
  qed
qed

subsection \<open>The read pass\<close>

lemma signal_and_update_trace:
  "signal_and_update e d ev w = Some (ret, w') \<Longrightarrow>
     trace w' = trace w @ [Signal d ev ((st w)\<lparr>recursion := recursion (st w) + 1\<rparr>)]"
  by (auto simp: signal_and_update_def Let_def split: option.splits if_splits)

lemma read_signal_done_trace:
  "read_signal_done e ev w = Some (ret, w') \<Longrightarrow>
     trace w' = trace w @ [Signal ReadVIO ev
        ((st w)\<lparr>read_ns := (read_ns (st w))\<lparr>enabled := False\<rparr>, recursion := recursion (st w) + 1\<rparr>)]"
  by (auto simp: read_signal_done_def read_signal_and_update_def on_st_def
        dest!: signal_and_update_trace split: option.splits if_splits)

lemma read_from_net_io_path:
  assumes "mutex (vio (read_ns (st w))) = Some m"
      and "Mutex_trylock (Some thr) (mutexes (st w) m) = Some pm"
      and "closed (st w) = 0"
      and "enabled (read_ns (st w))" and "op (vio (read_ns (st w))) = READ"
      and "mbuf (buffer (vio (read_ns (st w)))) = Some wb"
      and "ntodo (vio (read_ns (st w))) > 0"
      and "toread = (if write_avail wb > ntodo (vio (read_ns (st w)))
                     then ntodo (vio (read_ns (st w))) else write_avail wb)"
      and "toread \<noteq> 0"
  shows "read_from_net e thr w =
           map_option (on_st (unlock_at m)) (read_from_net_io e m toread wb (on_st (lock_at m pm) w))"
  using assms
  by (simp add: read_from_net_def read_from_net_locked_def on_st_def lock_at_def Let_def)

text \<open>
  C1. A read pass that reaches the system calls runs the loop, which leaves the last
  result \<open>r0\<close>, the last \<open>rattempted\<close> and \<open>total_read\<close>. Whenever \<open>total_read\<close>
  differs from \<open>rattempted\<close>, \<open>read_from_net\<close> goes on with the folded result \<open>r\<close>, which
  is \<open>total_read - rattempted\<close> when the last call returned 0 or less and
  \<open>total_read - rattempted + r0\<close> when it returned more: in one formula,
  \<open>total_read - rattempted + max r0 0\<close>. Here \<open>r0\<close> and \<open>rattempted\<close> are the result and
  the vector length of the last call and \<open>total_read - rattempted\<close> is the sum of the
  results of the calls before it, so \<open>r\<close> is positive and counts the bytes that the
  pass has moved. The pass is the rest of \<open>read_from_net\<close> run with this \<open>r\<close>: the buffer
  is filled by \<open>r\<close>, \<open>ndone\<close> grows by \<open>r\<close>, and the continuation is signalled on that
  state, after the system calls.
\<close>

theorem C1_folded_result:
  assumes m: "mutex (vio (read_ns (st w))) = Some m"
      and lk: "Mutex_trylock (Some thr) (mutexes (st w) m) = Some pm"
      and op: "closed (st w) = 0" "enabled (read_ns (st w))" "op (vio (read_ns (st w))) = READ"
      and wb: "mbuf (buffer (vio (read_ns (st w)))) = Some wb"
      and nt: "ntodo (vio (read_ns (st w))) > 0"
      and tr: "toread = (if write_avail wb > ntodo (vio (read_ns (st w)))
                         then ntodo (vio (read_ns (st w))) else write_avail wb)"
              "toread \<noteq> 0"
      and loop: "read_loop (NET_MAX_IOV e) (\<lambda>k. socket_read e (length (trace w) + k)) toread wb 0 []
                   = (r0, rattempted, total_read, calls)"
      and ne: "total_read \<noteq> rattempted"
      and r: "r = (if r0 \<le> 0 then total_read - rattempted else total_read - rattempted + r0)"
  shows "r = total_read - rattempted + max r0 0 \<and> 0 < r \<and>
         r0 = snd (last calls) \<and> rattempted = sum_list (fst (last calls)) \<and>
         total_read - rattempted = sum_list (map snd (butlast calls)) \<and>
         read_from_net e thr w =
           map_option (on_st (unlock_at m))
             (read_from_net_signal e m r
                (on_st (\<lambda>s. net_activity e
                              (s\<lparr>read_ns := (read_ns s)\<lparr>vio := (vio (read_ns s))
                                   \<lparr>buffer := (buffer (vio (read_ns s)))\<lparr>mbuf := Some (fill r wb)\<rparr>,
                                    ndone := ndone (vio (read_ns s)) + r\<rparr>\<rparr>\<rparr>))
                   ((on_st (lock_at m pm) w)\<lparr>trace := trace w @ map (\<lambda>(v, x). SysRead v x) calls\<rparr>))) \<and>
         (\<forall>w'. read_from_net e thr w = Some w' \<longrightarrow>
            (\<exists>s1. trace w' = trace w @ map (\<lambda>(v, x). SysRead v x) calls @
                      [Signal ReadVIO (if ntodo (vio (read_ns s1)) \<le> 0 then VC_EVENT_READ_COMPLETE
                                       else VC_EVENT_READ_READY) s1] \<and>
                  ndone (vio (read_ns s1)) = ndone (vio (read_ns (st w))) + r \<and>
                  nbytes (vio (read_ns s1)) = nbytes (vio (read_ns (st w))) \<and>
                  op (vio (read_ns s1)) = READ \<and>
                  mbuf (buffer (vio (read_ns s1))) = Some (fill r wb)))"
proof -
  let ?w0 = "on_st (lock_at m pm) w"
  let ?w1 = "?w0\<lparr>trace := trace w @ map (\<lambda>(v, x). SysRead v x) calls\<rparr>"
  let ?f = "\<lambda>s. net_activity e
                (s\<lparr>read_ns := (read_ns s)\<lparr>vio := (vio (read_ns s))
                     \<lparr>buffer := (buffer (vio (read_ns s)))\<lparr>mbuf := Some (fill r wb)\<rparr>,
                      ndone := ndone (vio (read_ns s)) + r\<rparr>\<rparr>\<rparr>)"
  let ?w2 = "on_st ?f ?w1"
  have p: "read_from_net e thr w = map_option (on_st (unlock_at m)) (read_from_net_io e m toread wb ?w0)"
    by (rule read_from_net_io_path [OF m lk op wb nt tr])
  have l0: "read_loop (NET_MAX_IOV e) (\<lambda>k. socket_read e (length (trace ?w0) + k)) toread wb 0 []
              = (r0, rattempted, total_read, calls)"
    using loop by (simp add: on_st_def)
  have tw0: "trace ?w0 = trace w" by (simp add: on_st_def)
  from read_loop_progress [OF loop] ne have pos: "0 < total_read - rattempted" by simp
  have s: "summarize total_read rattempted r0 = r" using ne r by (simp add: summarize_def)
  have rpos: "0 < r" using pos r by (simp split: if_splits)
  have c: "r0 = snd (last calls)" "rattempted = sum_list (fst (last calls))"
    "total_read - rattempted = sum_list (map snd (butlast calls))"
    using read_loop_calls [OF loop] by simp_all
  have io: "read_from_net_io e m toread wb ?w0 = read_from_net_signal e m r ?w2"
    using rpos by (simp add: read_from_net_io_def tw0 loop s Let_def)
  have eq: "read_from_net e thr w = map_option (on_st (unlock_at m)) (read_from_net_signal e m r ?w2)"
    by (simp only: p io)
  have nd: "ndone (vio (read_ns (st ?w2))) = ndone (vio (read_ns (st w))) + r"
    "nbytes (vio (read_ns (st ?w2))) = nbytes (vio (read_ns (st w)))"
    "mbuf (buffer (vio (read_ns (st ?w2)))) = Some (fill r wb)"
    "op (vio (read_ns (st ?w2))) = READ"
    "trace ?w2 = trace w @ map (\<lambda>(v, x). SysRead v x) calls"
    using op(3) by (simp_all add: on_st_def net_activity_def lock_at_def Let_def)
  have obs: "\<exists>s1. trace w' = trace w @ map (\<lambda>(v, x). SysRead v x) calls @
                      [Signal ReadVIO (if ntodo (vio (read_ns s1)) \<le> 0 then VC_EVENT_READ_COMPLETE
                                       else VC_EVENT_READ_READY) s1] \<and>
                  ndone (vio (read_ns s1)) = ndone (vio (read_ns (st w))) + r \<and>
                  nbytes (vio (read_ns s1)) = nbytes (vio (read_ns (st w))) \<and>
                  op (vio (read_ns s1)) = READ \<and>
                  mbuf (buffer (vio (read_ns s1))) = Some (fill r wb)"
    if run: "read_from_net e thr w = Some w'" for w'
  proof -
    from run eq obtain w3 where w3: "read_from_net_signal e m r ?w2 = Some w3"
      and w': "w' = on_st (unlock_at m) w3" by auto
    have tw': "trace w' = trace w3" using w' by (simp add: on_st_def)
    show ?thesis
    proof (cases "ntodo (vio (read_ns (st ?w2))) \<le> 0")
      case True
      with w3 rpos obtain ret where d: "read_signal_done e VC_EVENT_READ_COMPLETE ?w2 = Some (ret, w3)"
        by (auto simp: read_from_net_signal_def)
      let ?s1 = "(st ?w2)\<lparr>read_ns := (read_ns (st ?w2))\<lparr>enabled := False\<rparr>,
                          recursion := recursion (st ?w2) + 1\<rparr>"
      from True have "ntodo (vio (read_ns ?s1)) \<le> 0" by (simp add: ntodo_def)
      with read_signal_done_trace [OF d] tw' nd show ?thesis
        by (intro exI [of _ ?s1]) simp
    next
      case False
      with w3 rpos obtain ret w4 where d: "signal_and_update e ReadVIO VC_EVENT_READ_READY ?w2 = Some (ret, w4)"
        and t4: "trace w3 = trace w4"
        by (auto simp: read_from_net_signal_def read_signal_and_update_def read_from_net_tail_def
              on_st_def Let_def split: option.splits if_splits)
      let ?s1 = "(st ?w2)\<lparr>recursion := recursion (st ?w2) + 1\<rparr>"
      from False have "\<not> ntodo (vio (read_ns ?s1)) \<le> 0" by (simp add: ntodo_def)
      with signal_and_update_trace [OF d] tw' t4 nd show ?thesis
        by (intro exI [of _ ?s1]) simp
    qed
  qed
  from r have "r = total_read - rattempted + max r0 0" by (simp add: max_def)
  with rpos c eq obs show ?thesis by blast
qed

lemma w_blocks_path:
  "mutex (vio (read_ns (st w_blocks))) = Some 3"
  "Mutex_trylock (Some 1) (mutexes (st w_blocks) 3) = Some \<lparr>thread_holding = Some 1, nthread_holding = 2\<rparr>"
  "closed (st w_blocks) = 0" "enabled (read_ns (st w_blocks))" "op (vio (read_ns (st w_blocks))) = READ"
  "mbuf (buffer (vio (read_ns (st w_blocks)))) = Some [4, 4, 4]"
  "ntodo (vio (read_ns (st w_blocks))) > 0"
  "10 = (if write_avail [4, 4, 4] > ntodo (vio (read_ns (st w_blocks)))
          then ntodo (vio (read_ns (st w_blocks))) else write_avail [4, 4, 4])"
  "(10::int) \<noteq> 0"
  by (simp_all add: w_blocks_def vc_triggered_def vc0_def vio0_def Mutex_trylock_def writer_for_def
        ntodo_def write_avail_def)

lemma w_blocks_loop:
  "read_loop (NET_MAX_IOV env_short) (\<lambda>k. socket_read env_short (length (trace w_blocks) + k)) 10 [4, 4, 4] 0 []
     = (2, 4, 8, [([4], 4), ([4], 2)])"
  by (simp add: read_loop.simps env_short_def env0_def w_blocks_def Let_def)

lemma w_blocks_returns:
  "read_from_net env_short 1 w_blocks \<noteq> None"
  by (simp add: read_from_net_def read_from_net_locked_def read_from_net_io_def read_loop.simps
        read_from_net_signal_def read_from_net_tail_def
        summarize_def Let_def read_signal_done_def read_signal_error_def read_signal_and_update_def
        signal_and_update_def on_st_def env_short_def env0_def w_blocks_def vc_triggered_def vc0_def
        vio0_def netstate_def lock_at_def Mutex_trylock_def writer_for_def ntodo_def write_avail_def
        net_activity_def const_defs
        map_option_case split: option.split)

theorem C1_folded_result_witness:
  "\<exists>w' s1. read_from_net env_short 1 w_blocks = Some w' \<and>
      trace w' = [SysRead [4] 4, SysRead [4] 2, Signal ReadVIO VC_EVENT_READ_READY s1] \<and>
      ndone (vio (read_ns s1)) = 6 \<and> nbytes (vio (read_ns s1)) = 10 \<and>
      mbuf (buffer (vio (read_ns s1))) = Some [0, 2, 4]"
proof -
  obtain w' where w': "read_from_net env_short 1 w_blocks = Some w'"
    using w_blocks_returns by auto
  have n: "ndone (vio (read_ns (st w_blocks))) = 0" "nbytes (vio (read_ns (st w_blocks))) = 10"
    "trace w_blocks = []"
    by (simp_all add: w_blocks_def vc_triggered_def vio0_def)
  from C1_folded_result [OF w_blocks_path w_blocks_loop, of 6] w' n show ?thesis
    by (auto simp: ntodo_def split: if_splits)
qed

text \<open>
  C2. A read pass that reaches the system calls (the VIO's mutex is taken, the
  connection is open and enabled for a READ with work to do and room in the buffer)
  and whose folded result \<open>r\<close> is 0 or less ends in one of three ways. For \<open>-EAGAIN\<close>
  and \<open>-ENOTCONN\<close> it returns with \<open>read.triggered\<close> cleared and the connection off the
  read-ready list, and the trace holds the system calls and no signal. For 0 and
  \<open>-ECONNRESET\<close> it signals \<open>VC_EVENT_EOS\<close>, and the state the signal is sent on has
  \<open>read.triggered\<close> cleared and the connection off the read-ready list. For any other
  negative \<open>r\<close> it signals \<open>VC_EVENT_ERROR\<close> on a state whose \<open>lerrno\<close> is \<open>(int) -r\<close>, which
  is \<open>-r\<close> for every \<open>r\<close> that a negated \<open>errno\<close> can be.
\<close>

theorem C2_read_result_classified:
  assumes m: "mutex (vio (read_ns (st w))) = Some m"
      and lk: "Mutex_trylock (Some thr) (mutexes (st w) m) = Some pm"
      and op: "closed (st w) = 0" "enabled (read_ns (st w))" "op (vio (read_ns (st w))) = READ"
      and wb: "mbuf (buffer (vio (read_ns (st w)))) = Some wb"
      and nt: "ntodo (vio (read_ns (st w))) > 0"
      and tr: "toread = (if write_avail wb > ntodo (vio (read_ns (st w)))
                         then ntodo (vio (read_ns (st w))) else write_avail wb)"
              "toread \<noteq> 0"
      and loop: "read_loop (NET_MAX_IOV e) (\<lambda>k. socket_read e (length (trace w) + k)) toread wb 0 []
                   = (r0, rattempted, total_read, calls)"
      and r: "r = summarize total_read rattempted r0" "r \<le> 0"
  shows "(r = - EAGAIN \<or> r = - ENOTCONN \<longrightarrow>
            (\<exists>w'. read_from_net e thr w = Some w' \<and>
                  trace w' = trace w @ map (\<lambda>(v, x). SysRead v x) calls \<and>
                  \<not> triggered (read_ns (st w')) \<and> This \<notin> set (read_ready_list (st w')))) \<and>
         (r = 0 \<or> r = - ECONNRESET \<longrightarrow>
            (\<forall>w'. read_from_net e thr w = Some w' \<longrightarrow>
               (\<exists>s1. trace w' = trace w @ map (\<lambda>(v, x). SysRead v x) calls @
                                   [Signal ReadVIO VC_EVENT_EOS s1] \<and>
                     \<not> triggered (read_ns s1) \<and> This \<notin> set (read_ready_list s1)))) \<and>
         (r \<noteq> - EAGAIN \<and> r \<noteq> - ENOTCONN \<and> r \<noteq> 0 \<and> r \<noteq> - ECONNRESET \<longrightarrow>
            (\<forall>w'. read_from_net e thr w = Some w' \<longrightarrow>
               (\<exists>s1. trace w' = trace w @ map (\<lambda>(v, x). SysRead v x) calls @
                                   [Signal ReadVIO VC_EVENT_ERROR s1] \<and>
                     lerrno s1 = int_cast (- r) \<and> (- (2 ^ 31) < r \<longrightarrow> lerrno s1 = - r))))"
proof -
  let ?w0 = "on_st (lock_at m pm) w"
  have p: "read_from_net e thr w = map_option (on_st (unlock_at m)) (read_from_net_io e m toread wb ?w0)"
    by (rule read_from_net_io_path [OF m lk op wb nt tr])
  have l0: "read_loop (NET_MAX_IOV e) (\<lambda>k. socket_read e (length (trace ?w0) + k)) toread wb 0 []
              = (r0, rattempted, total_read, calls)"
    using loop by (simp add: on_st_def)
  have ic: "- (2 ^ 31) < r \<Longrightarrow> int_cast (- r) = - r"
    using r(2) by (simp add: int_cast_def signed_take_bit_int_eq_self)
  show ?thesis
  proof (intro conjI impI allI)
    assume a: "r = - EAGAIN \<or> r = - ENOTCONN"
    with r l0 show "\<exists>w'. read_from_net e thr w = Some w' \<and>
                  trace w' = trace w @ map (\<lambda>(v, x). SysRead v x) calls \<and>
                  \<not> triggered (read_ns (st w')) \<and> This \<notin> set (read_ready_list (st w'))"
      by (auto simp: p read_from_net_io_def Let_def on_st_def unlock_at_def lock_at_def q_remove_def)
  next
    fix w' assume a: "r = 0 \<or> r = - ECONNRESET" and s: "read_from_net e thr w = Some w'"
    from a have na: "\<not> (r = - EAGAIN \<or> r = - ENOTCONN)"
      by (auto simp: EAGAIN_def ENOTCONN_def ECONNRESET_def)
    from s p obtain w1 where w1: "read_from_net_io e m toread wb ?w0 = Some w1" and w': "w' = on_st (unlock_at m) w1"
      by auto
    from w1 l0 r a na obtain ret where
      "read_signal_done e VC_EVENT_EOS
         (on_st (\<lambda>s. s\<lparr>read_ns := (read_ns s)\<lparr>triggered := False\<rparr>,
                        read_ready_list := q_remove This (read_ready_list s)\<rparr>)
            (?w0\<lparr>trace := trace ?w0 @ map (\<lambda>(v, x). SysRead v x) calls\<rparr>)) = Some (ret, w1)"
      by (auto simp: read_from_net_io_def Let_def)
    from read_signal_done_trace [OF this] w'
    show "\<exists>s1. trace w' = trace w @ map (\<lambda>(v, x). SysRead v x) calls @
                                   [Signal ReadVIO VC_EVENT_EOS s1] \<and>
                     \<not> triggered (read_ns s1) \<and> This \<notin> set (read_ready_list s1)"
      by (simp add: on_st_def q_remove_def)
  next
    fix w' assume a: "r \<noteq> - EAGAIN \<and> r \<noteq> - ENOTCONN \<and> r \<noteq> 0 \<and> r \<noteq> - ECONNRESET"
      and s: "read_from_net e thr w = Some w'"
    from s p obtain w1 where w1: "read_from_net_io e m toread wb ?w0 = Some w1" and w': "w' = on_st (unlock_at m) w1"
      by auto
    from w1 l0 r a obtain ret where
      "read_signal_done e VC_EVENT_ERROR
         (on_st (\<lambda>s. s\<lparr>lerrno := int_cast (- r)\<rparr>)
           (on_st (\<lambda>s. s\<lparr>read_ns := (read_ns s)\<lparr>triggered := False\<rparr>\<rparr>)
            (?w0\<lparr>trace := trace ?w0 @ map (\<lambda>(v, x). SysRead v x) calls\<rparr>))) = Some (ret, w1)"
      by (auto simp: read_from_net_io_def Let_def read_signal_error_def)
    from read_signal_done_trace [OF this] w' ic
    show "\<exists>s1. trace w' = trace w @ map (\<lambda>(v, x). SysRead v x) calls @
                                   [Signal ReadVIO VC_EVENT_ERROR s1] \<and>
                     lerrno s1 = int_cast (- r) \<and> (- (2 ^ 31) < r \<longrightarrow> lerrno s1 = - r)"
      by (simp add: on_st_def)
  qed
qed

lemma w_ready_path:
  "mutex (vio (read_ns (st w_ready))) = Some 3"
  "Mutex_trylock (Some 1) (mutexes (st w_ready) 3) = Some \<lparr>thread_holding = Some 1, nthread_holding = 2\<rparr>"
  "closed (st w_ready) = 0" "enabled (read_ns (st w_ready))" "op (vio (read_ns (st w_ready))) = READ"
  "mbuf (buffer (vio (read_ns (st w_ready)))) = Some [4096]"
  "ntodo (vio (read_ns (st w_ready))) > 0"
  "100 = (if write_avail [4096] > ntodo (vio (read_ns (st w_ready)))
          then ntodo (vio (read_ns (st w_ready))) else write_avail [4096])"
  "(100::int) \<noteq> 0"
  by (simp_all add: w_ready_def vc_triggered_def vc0_def vio0_def Mutex_trylock_def writer_for_def
        ntodo_def write_avail_def)

lemma w_ready_loop:
  "read_loop (NET_MAX_IOV (env_rd x)) (\<lambda>k. socket_read (env_rd x) (length (trace w_ready) + k)) 100 [4096] 0 []
     = (x, 100, 100, [([100], x)])"
  by (simp add: read_loop.simps env_rd_def env0_def Let_def)

lemma w_ready_returns:
  "read_from_net (env_rd x) 1 w_ready \<noteq> None" if "x \<le> 0"
  using that
  by (simp add: read_from_net_def read_from_net_locked_def read_from_net_io_def read_loop.simps
        summarize_def Let_def read_signal_done_def read_signal_error_def read_signal_and_update_def
        signal_and_update_def on_st_def env_rd_def env0_def w_ready_def vc_triggered_def vc0_def
        vio0_def netstate_def lock_at_def Mutex_trylock_def writer_for_def ntodo_def write_avail_def
        map_option_case split: option.split)

theorem C2_read_result_classified_witness:
  "(\<exists>w'. read_from_net (env_rd (- 11)) 1 w_ready = Some w' \<and> trace w' = [SysRead [100] (- 11)] \<and>
         \<not> triggered (read_ns (st w')) \<and> This \<notin> set (read_ready_list (st w'))) \<and>
   (\<exists>w' s1. read_from_net (env_rd 0) 1 w_ready = Some w' \<and>
         trace w' = [SysRead [100] 0, Signal ReadVIO VC_EVENT_EOS s1] \<and>
         \<not> triggered (read_ns s1) \<and> This \<notin> set (read_ready_list s1)) \<and>
   (\<exists>w' s1. read_from_net (env_rd (- 32)) 1 w_ready = Some w' \<and>
         trace w' = [SysRead [100] (- 32), Signal ReadVIO VC_EVENT_ERROR s1] \<and> lerrno s1 = 32)"
proof -
  have s: "summarize 100 100 x = x" for x by (simp add: summarize_def)
  note a = C2_read_result_classified [OF w_ready_path w_ready_loop, of "- 11" "- 11"]
  note b = C2_read_result_classified [OF w_ready_path w_ready_loop, of 0 0]
  note c = C2_read_result_classified [OF w_ready_path w_ready_loop, of "- 32" "- 32"]
  obtain wb where wb: "read_from_net (env_rd 0) 1 w_ready = Some wb"
    using w_ready_returns [of 0] by auto
  obtain wc where wc: "read_from_net (env_rd (- 32)) 1 w_ready = Some wc"
    using w_ready_returns [of "- 32"] by auto
  from a have 1: "\<exists>w'. read_from_net (env_rd (- 11)) 1 w_ready = Some w' \<and> trace w' = [SysRead [100] (- 11)] \<and>
         \<not> triggered (read_ns (st w')) \<and> This \<notin> set (read_ready_list (st w'))"
    by (simp add: s EAGAIN_def w_ready_def)
  from b wb have 2: "\<exists>s1. trace wb = [SysRead [100] 0, Signal ReadVIO VC_EVENT_EOS s1] \<and>
         \<not> triggered (read_ns s1) \<and> This \<notin> set (read_ready_list s1)"
    by (simp add: s w_ready_def)
  from c wc have 3: "\<exists>s1. trace wc = [SysRead [100] (- 32), Signal ReadVIO VC_EVENT_ERROR s1] \<and> lerrno s1 = 32"
    by (auto simp: s w_ready_def EAGAIN_def ENOTCONN_def ECONNRESET_def)
  from 1 2 3 wb wc show ?thesis by auto
qed

text \<open>
  C8. A read pass on a VIO with work to do (\<open>ntodo > 0\<close>) whose buffer has no space
  (\<open>write_avail = 0\<close>, so that \<open>toread = 0\<close>) makes no system call and sends no signal:
  the trace is unchanged. It disables the read direction: \<open>read.enabled\<close> is cleared,
  the connection is off the read-ready list and reading is taken out of the polling
  interest (the effect of \<open>read_disable\<close>, as section 4.4 of the spec gives it).
\<close>

theorem C8_full_buffer_disables:
  assumes "mutex (vio (read_ns (st w))) = Some m"
      and "Mutex_trylock (Some thr) (mutexes (st w) m) = Some pm"
      and "closed (st w) = 0"
      and "enabled (read_ns (st w))" and "op (vio (read_ns (st w))) = READ"
      and "mbuf (buffer (vio (read_ns (st w)))) = Some wb"
      and "ntodo (vio (read_ns (st w))) > 0"
      and "write_avail wb = 0"
  shows "\<exists>w'. read_from_net e thr w = Some w' \<and> trace w' = trace w \<and>
              \<not> enabled (read_ns (st w')) \<and> This \<notin> set (read_ready_list (st w')) \<and>
              ep (st w') = ep (st w) @ [EpModifyOff EVENTIO_READ]"
  using assms
  by (simp add: read_from_net_def read_from_net_locked_def on_st_def lock_at_def unlock_at_def
        Let_def read_from_net_signal_def read_from_net_tail_def read_disable_def q_remove_def)

theorem C8_full_buffer_disables_witness:
  "\<exists>w'. read_from_net env0 1 w_full = Some w' \<and> trace w' = [] \<and>
        \<not> enabled (read_ns (st w')) \<and> This \<notin> set (read_ready_list (st w')) \<and>
        ep (st w') = [EpModifyOff EVENTIO_READ]"
proof -
  have h: "mutex (vio (read_ns (st w_full))) = Some 3"
    "Mutex_trylock (Some 1) (mutexes (st w_full) 3) = Some \<lparr>thread_holding = Some 1, nthread_holding = 2\<rparr>"
    "closed (st w_full) = 0" "enabled (read_ns (st w_full))" "op (vio (read_ns (st w_full))) = READ"
    "mbuf (buffer (vio (read_ns (st w_full)))) = Some [0, 0]"
    "ntodo (vio (read_ns (st w_full))) > 0"
    "write_avail [0, 0] = 0"
    by (simp_all add: w_full_def vc_triggered_def vc0_def vio0_def Mutex_trylock_def writer_for_def
          ntodo_def write_avail_def)
  from C8_full_buffer_disables [OF h, of env0] show ?thesis by (simp add: w_full_def vc_triggered_def vc0_def)
qed


subsection \<open>Timeouts\<close>

lemmas main_event_defs =
  mainEvent_def mainEvent_locked_def mainEvent_write_def try_lock_at_def unlock_if_def
  Mutex_trylock_def Mutex_unlock_def lock_at_def unlock_at_def on_st_def
  clear_signal_timeout_at_def signal_timeout_at_def signal_event_def
  read_signal_and_update_def write_signal_and_update_def signal_and_update_def netstate_def

lemma mainEvent_write_shape:
  assumes "mainEvent_write e event rc wc w = Some (ret, w')"
  shows "trace w' = trace w \<or>
         (trace w' = trace w @ [Signal WriteVIO (signal_event event) ((st w)\<lparr>recursion := recursion (st w) + 1\<rparr>)] \<and>
          signal_timeout_at event (st w) = 0 \<and> closed (st w) = 0 \<and>
          op (vio (write_ns (st w))) = WRITE \<and> f_shutdown (st w) AND NET_VC_SHUTDOWN_WRITE = 0 \<and>
          rc \<noteq> cont (vio (write_ns (st w))) \<and> wc = cont (vio (write_ns (st w))))"
  using assms
  by (auto simp: mainEvent_write_def Let_def write_signal_and_update_def
        dest!: signal_and_update_trace split: if_splits option.splits)

lemma close_trace:
  "map_option (\<lambda>s'. (EVENT_DONE, w\<lparr>st := s'\<rparr>)) x = Some (ret, w') \<Longrightarrow> trace w' = trace w"
  by (cases x) auto

lemma mainEvent_locked_shape:
  assumes "mainEvent_locked e event cancelled w = Some (ret, w')"
  shows "trace w' = trace w \<or>
         (\<exists>sr. trace w' = trace w @ [Signal ReadVIO (signal_event event) sr] \<and>
               cont (vio (read_ns sr)) = cont (vio (read_ns (st w)))) \<or>
         (\<exists>sw. trace w' = trace w @ [Signal WriteVIO (signal_event event) sw] \<and>
               cont (vio (write_ns sw)) \<noteq> None \<and>
               cont (vio (write_ns sw)) = cont (vio (write_ns (st w)))) \<or>
         (\<exists>sr sw. trace w' = trace w @ [Signal ReadVIO (signal_event event) sr,
                                        Signal WriteVIO (signal_event event) sw] \<and>
               cont (vio (read_ns sr)) = cont (vio (read_ns (st w))) \<and>
               signal_timeout_at event sw = 0 \<and> closed sw = 0 \<and>
               op (vio (write_ns sw)) = WRITE \<and> f_shutdown sw AND NET_VC_SHUTDOWN_WRITE = 0 \<and>
               cont (vio (write_ns sw)) \<noteq> cont (vio (read_ns sr)) \<and>
               cont (vio (write_ns sw)) = cont (vio (write_ns (st w))))"
proof -
  let ?s1 = "clear_signal_timeout_at event (st w)"
  have c1: "cont (vio (read_ns ?s1)) = cont (vio (read_ns (st w)))"
           "cont (vio (write_ns ?s1)) = cont (vio (write_ns (st w)))"
    by (simp_all add: clear_signal_timeout_at_def)
  have sta: "signal_timeout_at event (x\<lparr>recursion := n\<rparr>) = signal_timeout_at event x" for x n
    by (simp add: signal_timeout_at_def)
  consider (a) "cancelled \<or> (event = EVENT_IMMEDIATE \<and>
              (inactivity_timeout_in (st w) = 0 \<or> next_inactivity_timeout_at (st w) > get_hrtime e))"
    | (b) "\<not> (cancelled \<or> (event = EVENT_IMMEDIATE \<and>
              (inactivity_timeout_in (st w) = 0 \<or> next_inactivity_timeout_at (st w) > get_hrtime e)))"
          "closed ?s1 \<noteq> 0"
    | (c) "\<not> (cancelled \<or> (event = EVENT_IMMEDIATE \<and>
              (inactivity_timeout_in (st w) = 0 \<or> next_inactivity_timeout_at (st w) > get_hrtime e)))"
          "closed ?s1 = 0" "op (vio (read_ns ?s1)) = READ \<and> f_shutdown ?s1 AND NET_VC_SHUTDOWN_READ = 0"
    | (d) "\<not> (cancelled \<or> (event = EVENT_IMMEDIATE \<and>
              (inactivity_timeout_in (st w) = 0 \<or> next_inactivity_timeout_at (st w) > get_hrtime e)))"
          "closed ?s1 = 0" "\<not> (op (vio (read_ns ?s1)) = READ \<and> f_shutdown ?s1 AND NET_VC_SHUTDOWN_READ = 0)"
    by blast
  then show ?thesis
  proof cases
    case a
    with assms show ?thesis by (auto simp: mainEvent_locked_def split: if_splits)
  next
    case b
    with assms have "map_option (\<lambda>s'. (EVENT_DONE, w\<lparr>st := s'\<rparr>))
                       (close_UnixNetVConnection e ?s1 (thread ?s1)) = Some (ret, w')"
      by (auto simp: mainEvent_locked_def Let_def split: if_splits)
    from close_trace [OF this] show ?thesis by simp
  next
    case c
    with assms obtain r1 w1 where
      rs: "read_signal_and_update e (signal_event event) (w\<lparr>st := ?s1\<rparr>) = Some (r1, w1)"
      and rest: "(r1 = EVENT_DONE \<and> w' = w1) \<or>
                 (r1 \<noteq> EVENT_DONE \<and>
                  mainEvent_write e event (cont (vio (read_ns ?s1))) (cont (vio (write_ns ?s1))) w1 = Some (ret, w'))"
      by (auto simp: mainEvent_locked_def Let_def split: if_splits option.splits)
    from rs have t1: "trace w1 = trace w @ [Signal ReadVIO (signal_event event) (?s1\<lparr>recursion := recursion ?s1 + 1\<rparr>)]"
      by (auto simp: read_signal_and_update_def dest!: signal_and_update_trace)
    from rest show ?thesis
    proof
      assume "r1 = EVENT_DONE \<and> w' = w1"
      with t1 c1 show ?thesis by simp
    next
      assume "r1 \<noteq> EVENT_DONE \<and>
                  mainEvent_write e event (cont (vio (read_ns ?s1))) (cont (vio (write_ns ?s1))) w1 = Some (ret, w')"
      then have "mainEvent_write e event (cont (vio (read_ns ?s1))) (cont (vio (write_ns ?s1))) w1 = Some (ret, w')"
        by simp
      from mainEvent_write_shape [OF this] t1 c1 show ?thesis
        by (auto simp: sta)
    qed
  next
    case d
    with assms have "mainEvent_write e event None (cont (vio (write_ns ?s1))) (w\<lparr>st := ?s1\<rparr>) = Some (ret, w')"
      by (auto simp: mainEvent_locked_def Let_def split: if_splits)
    from mainEvent_write_shape [OF this] c1 show ?thesis
      by auto
  qed
qed

lemma try_lock_at_frame:
  "try_lock_at t m s = (b, s') \<Longrightarrow> s' = s \<or> (\<exists>pm. s' = lock_at m pm s)"
  by (auto simp: try_lock_at_def split: option.splits)

lemma lock_at_fields:
  "read_ns (lock_at m pm s) = read_ns s" "write_ns (lock_at m pm s) = write_ns s"
  by (simp_all add: lock_at_def)

text \<open>
  C7. The signals that one run of \<open>mainEvent\<close> sends are none, one to the read side,
  one to the write side, or one to the read side followed by one to the write side,
  all with the same timeout event. In the last case the state on which the write side
  is signalled, which is the state the read side's continuation has left, satisfies the
  six conditions of the claim: the deadline that fired is still 0, \<open>closed\<close> is 0,
  \<open>write.vio.op\<close> is WRITE, the WRITE bit of \<open>f.shutdown\<close> is clear, the write
  continuation differs from the read continuation that was signalled and equals the
  write continuation of the state on entry. So when both VIOs have the same continuation
  on entry, a run sends at most one signal.
\<close>

theorem C7_mainEvent_signals:
  assumes run: "mainEvent e event cancelled w = Some (ret, w')"
  shows "\<exists>tr. trace w' = trace w @ tr \<and>
           (tr = [] \<or>
            (\<exists>sr. tr = [Signal ReadVIO (signal_event event) sr]) \<or>
            (\<exists>sw. tr = [Signal WriteVIO (signal_event event) sw]) \<or>
            (\<exists>sr sw. tr = [Signal ReadVIO (signal_event event) sr,
                               Signal WriteVIO (signal_event event) sw] \<and>
               signal_timeout_at event sw = 0 \<and> closed sw = 0 \<and>
               op (vio (write_ns sw)) = WRITE \<and> f_shutdown sw AND NET_VC_SHUTDOWN_WRITE = 0 \<and>
               cont (vio (write_ns sw)) \<noteq> cont (vio (read_ns sr)) \<and>
               cont (vio (write_ns sw)) = cont (vio (write_ns (st w))))) \<and>
           (cont (vio (read_ns (st w))) = cont (vio (write_ns (st w))) \<longrightarrow> length tr \<le> 1)"
proof -
  obtain hl sh where h: "try_lock_at (Some (this_ethread e)) (nh_mutex (st w)) (st w) = (hl, sh)"
    by (cases "try_lock_at (Some (this_ethread e)) (nh_mutex (st w)) (st w)")
  let ?rm = "case mutex (vio (read_ns (st w))) of Some m \<Rightarrow> m | None \<Rightarrow> ethread_mutex e"
  let ?wm = "case mutex (vio (write_ns (st w))) of Some m \<Rightarrow> m | None \<Rightarrow> ethread_mutex e"
  obtain rl sr where r: "try_lock_at (Some (this_ethread e)) ?rm sh = (rl, sr)"
    by (cases "try_lock_at (Some (this_ethread e)) ?rm sh")
  obtain wl sw where wq: "try_lock_at (Some (this_ethread e)) ?wm sr = (wl, sw)"
    by (cases "try_lock_at (Some (this_ethread e)) ?wm sr")
  from try_lock_at_frame [OF h] try_lock_at_frame [OF r] try_lock_at_frame [OF wq]
  have fr: "read_ns sw = read_ns (st w)" "write_ns sw = write_ns (st w)"
    by (auto simp: lock_at_fields)
  from run h r wq
  consider (fail) "trace w' = trace w"
    | (locked) r0 w0 where "mainEvent_locked e event cancelled (w\<lparr>st := sw\<rparr>) = Some (r0, w0)"
        "trace w' = trace w0"
    by (auto simp: mainEvent_def Let_def on_st_def split: if_splits)
  then show ?thesis
  proof cases
    case fail
    then show ?thesis by simp
  next
    case locked
    from mainEvent_locked_shape [OF locked(1)] locked(2) fr
    show ?thesis by auto
  qed
qed

theorem C7_mainEvent_signals_witness:
  "(\<exists>ret w' sr sw. mainEvent env0 EVENT_INTERVAL False (w_timeout 8) = Some (ret, w') \<and>
       trace w' = [Signal ReadVIO VC_EVENT_ACTIVE_TIMEOUT sr, Signal WriteVIO VC_EVENT_ACTIVE_TIMEOUT sw] \<and>
       cont (vio (write_ns sw)) = Some 8 \<and>
       closed sw = 0 \<and> next_activity_timeout_at sw = 0) \<and>
   (\<exists>ret w' sr. mainEvent env0 EVENT_INTERVAL False (w_timeout 7) = Some (ret, w') \<and>
       trace w' = [Signal ReadVIO VC_EVENT_ACTIVE_TIMEOUT sr])"
proof -
  obtain r8 w8 where 8: "mainEvent env0 EVENT_INTERVAL False (w_timeout 8) = Some (r8, w8)"
    and l8: "length (trace w8) = 2"
    by (simp add: main_event_defs const_defs w_timeout_def vc_triggered_def vc0_def vio0_def
          env0_def Let_def)
  obtain r7 w7 where 7: "mainEvent env0 EVENT_INTERVAL False (w_timeout 7) = Some (r7, w7)"
    and l7: "case trace w7 of Signal ReadVIO ev s # rest \<Rightarrow> True | _ \<Rightarrow> False"
    by (simp add: main_event_defs const_defs w_timeout_def vc_triggered_def vc0_def vio0_def
          env0_def Let_def)
  have se: "signal_event EVENT_INTERVAL = VC_EVENT_ACTIVE_TIMEOUT"
    by (simp add: signal_event_def const_defs)
  have c: "cont (vio (read_ns (st (w_timeout c)))) = Some 7" "cont (vio (write_ns (st (w_timeout c)))) = Some c"
    "trace (w_timeout c) = []" for c
    by (simp_all add: w_timeout_def vc_triggered_def vio0_def)
  from C7_mainEvent_signals [OF 8] l8 c [of 8] se
  have A: "\<exists>sr sw. trace w8 = [Signal ReadVIO VC_EVENT_ACTIVE_TIMEOUT sr, Signal WriteVIO VC_EVENT_ACTIVE_TIMEOUT sw] \<and>
       cont (vio (write_ns sw)) = Some 8 \<and> closed sw = 0 \<and> next_activity_timeout_at sw = 0"
    by (auto simp: signal_timeout_at_def const_defs)
  from C7_mainEvent_signals [OF 7] l7 c [of 7] se
  have B: "\<exists>sr. trace w7 = [Signal ReadVIO VC_EVENT_ACTIVE_TIMEOUT sr]"
    by (auto split: list.splits obs.splits vio_ref.splits)
  from A B 7 8 show ?thesis by auto
qed


subsection \<open>The byte counts\<close>

lemma vc_inv_frame:
  "vc_inv (read_reschedule s) = vc_inv s"
  "vc_inv (write_reschedule s) = vc_inv s"
  "vc_inv (read_disable s) = vc_inv s"
  "vc_inv (write_disable s) = vc_inv s"
  "vc_inv (net_activity e s) = vc_inv s"
  "vc_inv (lock_at m pm s) = vc_inv s"
  "vc_inv (unlock_at m s) = vc_inv s"
  by (simp_all add: vc_inv_def vio_inv_def read_reschedule_def write_reschedule_def read_disable_def
        write_disable_def net_activity_def lock_at_def unlock_at_def Let_def)

lemma vc_inv_close:
  "close_UnixNetVConnection e s t = Some s' \<Longrightarrow> vc_inv s' = vc_inv s"
  by (auto simp: close_UnixNetVConnection_def free_def cancel_OOB_def Let_def vc_inv_def vio_inv_def
        split: if_splits)

lemma world_inv_on_st:
  "world_inv (on_st f w) = (vc_inv (f (st w)) \<and> list_all obs_inv (trace w))"
  "world_inv (w\<lparr>st := s\<rparr>) = (vc_inv s \<and> list_all obs_inv (trace w))"
  by (simp_all add: world_inv_def on_st_def)

lemma world_inv_frame:
  "world_inv (on_st read_reschedule w) = world_inv w"
  "world_inv (on_st write_reschedule w) = world_inv w"
  "world_inv (on_st read_disable w) = world_inv w"
  "world_inv (on_st write_disable w) = world_inv w"
  "world_inv (on_st (unlock_at m) w) = world_inv w"
  "world_inv (on_st (lock_at m pm) w) = world_inv w"
  by (simp_all add: world_inv_on_st vc_inv_frame) (simp_all add: world_inv_def)

lemma world_inv_sys:
  "world_inv (w\<lparr>trace := trace w @ map (\<lambda>(v, x). SysRead v x) calls\<rparr>) = world_inv w"
  "world_inv (w\<lparr>trace := trace w @ map (\<lambda>(v, x). SysWrite v x) calls\<rparr>) = world_inv w"
  by (auto simp: world_inv_def list_all_iff obs_inv_def)

lemma world_inv_signal:
  assumes h: "\<forall>c ev d s s'. vc_inv s \<longrightarrow> handleEvent e c ev d s = Some s' \<longrightarrow> vc_inv s'"
      and i: "world_inv w"
      and r: "signal_and_update e d event w = Some (ret, w')"
  shows "world_inv w'"
proof -
  let ?s1 = "(st w)\<lparr>recursion := recursion (st w) + 1\<rparr>"
  have i1: "vc_inv ?s1" using i by (simp add: vc_inv_def world_inv_def)
  from r obtain s2 where s2: "vc_inv s2"
    and fin: "st w' = s2\<lparr>recursion := recursion s2 - 1\<rparr> \<or>
              close_UnixNetVConnection e (s2\<lparr>recursion := recursion s2 - 1\<rparr>) (thread s2) = Some (st w')"
  proof (cases "cont (vio (netstate d ?s1))")
    case None
    with r that [of "?s1\<lparr>closed := 1\<rparr>"] i1 show ?thesis
      by (auto simp: signal_and_update_def Let_def vc_inv_def split: if_splits option.splits)
  next
    case (Some c)
    with r obtain s2 where hs: "handleEvent e c event d ?s1 = Some s2"
      by (auto simp: signal_and_update_def Let_def split: option.splits)
    with h i1 have "vc_inv s2" by blast
    with r Some hs that [of s2] show ?thesis
      by (auto simp: signal_and_update_def Let_def split: if_splits option.splits)
  qed
  have "vc_inv (s2\<lparr>recursion := recursion s2 - 1\<rparr>)" using s2 by (simp add: vc_inv_def)
  with fin have "vc_inv (st w')" by (auto simp: vc_inv_close)
  moreover from signal_and_update_trace [OF r] i i1 have "list_all obs_inv (trace w')"
    by (simp add: world_inv_def obs_inv_def)
  ultimately show ?thesis by (simp add: world_inv_def)
qed

lemma world_inv_signal_done:
  assumes h: "\<forall>c ev d s s'. vc_inv s \<longrightarrow> handleEvent e c ev d s = Some s' \<longrightarrow> vc_inv s'"
      and i: "world_inv w"
  shows "read_signal_done e event w = Some (ret, w') \<Longrightarrow> world_inv w'"
    and "write_signal_done e event w = Some (ret, w') \<Longrightarrow> world_inv w'"
    and "read_signal_error e err w = Some (ret, w') \<Longrightarrow> world_inv w'"
    and "write_signal_error e err w = Some (ret, w') \<Longrightarrow> world_inv w'"
proof -
  have a: "world_inv (on_st (\<lambda>s. s\<lparr>read_ns := (read_ns s)\<lparr>enabled := False\<rparr>\<rparr>) x) = world_inv x"
          "world_inv (on_st (\<lambda>s. s\<lparr>write_ns := (write_ns s)\<lparr>enabled := False\<rparr>\<rparr>) x) = world_inv x"
          "world_inv (on_st (\<lambda>s. s\<lparr>lerrno := err\<rparr>) x) = world_inv x" for x
    by (simp_all add: world_inv_def on_st_def vc_inv_def vio_inv_def)
  have rd: "world_inv w'" if "world_inv x" "read_signal_done e ev x = Some (ret, w')" for x ev
  proof -
    let ?x1 = "on_st (\<lambda>s. s\<lparr>read_ns := (read_ns s)\<lparr>enabled := False\<rparr>\<rparr>) x"
    from that(2) obtain r1 w1 where s: "signal_and_update e ReadVIO ev ?x1 = Some (r1, w1)"
      and w': "w' = w1 \<or> w' = on_st read_reschedule w1"
      by (auto simp: read_signal_done_def read_signal_and_update_def split: option.splits if_splits)
    from that(1) have "world_inv ?x1" by (simp add: a)
    from world_inv_signal [OF h this s] have "world_inv w1" .
    with w' show ?thesis by (auto simp: world_inv_frame)
  qed
  have wr: "world_inv w'" if "world_inv x" "write_signal_done e ev x = Some (ret, w')" for x ev
  proof -
    let ?x1 = "on_st (\<lambda>s. s\<lparr>write_ns := (write_ns s)\<lparr>enabled := False\<rparr>\<rparr>) x"
    from that(2) obtain r1 w1 where s: "signal_and_update e WriteVIO ev ?x1 = Some (r1, w1)"
      and w': "w' = w1 \<or> w' = on_st write_reschedule w1"
      by (auto simp: write_signal_done_def write_signal_and_update_def split: option.splits if_splits)
    from that(1) have "world_inv ?x1" by (simp add: a)
    from world_inv_signal [OF h this s] have "world_inv w1" .
    with w' show ?thesis by (auto simp: world_inv_frame)
  qed
  show "read_signal_done e event w = Some (ret, w') \<Longrightarrow> world_inv w'" using rd i by blast
  show "write_signal_done e event w = Some (ret, w') \<Longrightarrow> world_inv w'" using wr i by blast
  show "read_signal_error e err w = Some (ret, w') \<Longrightarrow> world_inv w'"
    using rd [of "on_st (\<lambda>s. s\<lparr>lerrno := err\<rparr>) w"] i by (simp add: read_signal_error_def a)
  show "write_signal_error e err w = Some (ret, w') \<Longrightarrow> world_inv w'"
    using wr [of "on_st (\<lambda>s. s\<lparr>lerrno := err\<rparr>) w"] i by (simp add: write_signal_error_def a)
qed

lemma read_loop_bound:
  "read_loop mi rd toread b T cs = (r, ra, tot, calls) \<Longrightarrow> \<forall>k v. rd k v \<le> sum_list v \<Longrightarrow>
     0 \<le> T \<Longrightarrow> (T \<noteq> 0 \<longrightarrow> T < toread) \<Longrightarrow> 0 < summarize tot ra r \<Longrightarrow>
     summarize tot ra r \<le> toread"
proof (induction mi rd toread b T cs rule: read_loop.induct)
  case (1 max_iov rd toread b total_read calls0)
  obtain tv ra0 b' where f: "read_fill_iov max_iov (toread - total_read) b [] 0 = (tv, ra0, b')"
    by (cases "read_fill_iov max_iov (toread - total_read) b [] 0") auto
  from read_fill_iov_sum [OF f] have s: "sum_list tv = ra0" by simp
  from read_fill_iov_range [OF f]
  have rg: "ra0 = 0 \<or> ra0 = toread - total_read \<or> (0 < ra0 \<and> ra0 < toread - total_read)" by simp
  let ?r = "rd (length calls0) tv"
  from "1.prems"(2) s have kr: "?r \<le> ra0" by auto
  show ?case
  proof (cases "ra0 \<noteq> 0 \<and> ?r = ra0 \<and> total_read + ra0 < toread")
    case True
    with "1.prems"(1) f
    have l: "read_loop max_iov rd toread b' (total_read + ra0) (calls0 @ [(tv, ?r)]) = (r, ra, tot, calls)"
      by (subst (asm) read_loop.simps) (simp add: Let_def)
    from True rg "1.prems"(3) have p: "0 \<le> total_read + ra0" "total_read + ra0 \<noteq> 0 \<longrightarrow> total_read + ra0 < toread"
      by auto
    from "1.IH" [OF f [symmetric] refl refl refl refl True l "1.prems"(2) p "1.prems"(5)]
    show ?thesis .
  next
    case False
    with "1.prems"(1) f
    have e: "r = ?r" "ra = ra0" "tot = total_read + ra0"
      by (subst (asm) read_loop.simps, auto simp: Let_def)+
    show ?thesis
    proof (cases "total_read = 0")
      case True
      with e kr rg "1.prems"(5) show ?thesis by (auto simp: summarize_def)
    next
      case nz: False
      with "1.prems"(3,4) have "0 < total_read" "total_read < toread" by auto
      with e kr rg nz show ?thesis by (auto simp: summarize_def)
    qed
  qed
qed

lemma world_inv_read_tail:
  "world_inv w \<Longrightarrow> read_from_net_tail w = Some w' \<Longrightarrow> world_inv w'"
  by (auto simp: read_from_net_tail_def Let_def world_inv_frame split: if_splits option.splits)

lemma world_inv_read_signal:
  assumes h: "\<forall>c ev d s s'. vc_inv s \<longrightarrow> handleEvent e c ev d s = Some s' \<longrightarrow> vc_inv s'"
      and i: "world_inv w"
      and r: "read_from_net_signal e m r w = Some w'"
  shows "world_inv w'"
proof (cases "r = 0")
  case True
  with r i show ?thesis by (auto simp: read_from_net_signal_def intro: world_inv_read_tail)
next
  case nz: False
  show ?thesis
  proof (cases "ntodo (vio (read_ns (st w))) \<le> 0")
    case True
    with nz r obtain ret where "read_signal_done e VC_EVENT_READ_COMPLETE w = Some (ret, w')"
      by (auto simp: read_from_net_signal_def)
    from world_inv_signal_done(1) [OF h i this] show ?thesis .
  next
    case False
    with nz r obtain ret w1 where s: "signal_and_update e ReadVIO VC_EVENT_READ_READY w = Some (ret, w1)"
      and w': "w' = w1 \<or> w' = on_st read_reschedule w1 \<or> read_from_net_tail w1 = Some w'"
      by (auto simp: read_from_net_signal_def read_signal_and_update_def split: option.splits if_splits)
    from world_inv_signal [OF h i s] have "world_inv w1" .
    with w' show ?thesis by (auto simp: world_inv_frame intro: world_inv_read_tail)
  qed
qed

lemma world_inv_read_io:
  assumes h: "\<forall>c ev d s s'. vc_inv s \<longrightarrow> handleEvent e c ev d s = Some s' \<longrightarrow> vc_inv s'"
      and k: "\<forall>k v. socket_read e k v \<le> sum_list v"
      and i: "world_inv w"
      and t: "toread \<le> nbytes (vio (read_ns (st w))) - ndone (vio (read_ns (st w)))"
      and r: "read_from_net_io e m toread wb w = Some w'"
  shows "world_inv w'"
proof -
  obtain r0 ra tot calls where
    l: "read_loop (NET_MAX_IOV e) (\<lambda>k. socket_read e (length (trace w) + k)) toread wb 0 [] = (r0, ra, tot, calls)"
    by (cases "read_loop (NET_MAX_IOV e) (\<lambda>k. socket_read e (length (trace w) + k)) toread wb 0 []") auto
  let ?r = "summarize tot ra r0"
  let ?w1 = "w\<lparr>trace := trace w @ map (\<lambda>(v, x). SysRead v x) calls\<rparr>"
  have w1: "world_inv ?w1" using i by (simp add: world_inv_sys)
  have i1: "world_inv (on_st f ?w1) = (vc_inv (f (st w)) \<and> list_all obs_inv (trace ?w1))" for f
    by (simp add: world_inv_on_st)
  from w1 have tr1: "list_all obs_inv (trace ?w1)" and i0: "vc_inv (st w)" by (simp_all add: world_inv_def)
  show ?thesis
  proof (cases "?r \<le> 0")
    case True
    let ?c = "\<lambda>s. s\<lparr>read_ns := (read_ns s)\<lparr>triggered := False\<rparr>,
                    read_ready_list := q_remove This (read_ready_list s)\<rparr>"
    let ?t = "\<lambda>s. s\<lparr>read_ns := (read_ns s)\<lparr>triggered := False\<rparr>\<rparr>"
    have ic: "vc_inv (?c (st w))" "vc_inv (?t (st w))" using i0 by (simp_all add: vc_inv_def vio_inv_def)
    from r l True
    consider "w' = on_st ?c ?w1"
      | ret where "read_signal_done e VC_EVENT_EOS (on_st ?c ?w1) = Some (ret, w')"
      | ret where "read_signal_error e (int_cast (- ?r)) (on_st ?t ?w1) = Some (ret, w')"
      by (auto simp: read_from_net_io_def Let_def split: if_splits)
    then show ?thesis
    proof cases
      case 1 show ?thesis unfolding 1 i1 using ic tr1 by simp
    next
      case 2
      have "world_inv (on_st ?c ?w1)" unfolding i1 using ic tr1 by simp
      from world_inv_signal_done(1) [OF h this 2] show ?thesis .
    next
      case 3
      have "world_inv (on_st ?t ?w1)" unfolding i1 using ic tr1 by simp
      from world_inv_signal_done(3) [OF h this 3] show ?thesis .
    qed
  next
    case False
    then have pos: "0 < ?r" by simp
    from read_loop_bound [OF l _ _ _ pos] k have b: "?r \<le> toread" by simp
    let ?f = "\<lambda>s. net_activity e
                  (s\<lparr>read_ns := (read_ns s)\<lparr>vio := (vio (read_ns s))
                       \<lparr>buffer := (buffer (vio (read_ns s)))\<lparr>mbuf := Some (fill ?r wb)\<rparr>,
                        ndone := ndone (vio (read_ns s)) + ?r\<rparr>\<rparr>\<rparr>)"
    from i0 b t have "vc_inv (?f (st w))"
      by (simp add: vc_inv_frame) (simp add: vc_inv_def vio_inv_def)
    then have i2: "world_inv (on_st ?f ?w1)" unfolding i1 using tr1 by simp
    from r l False have "read_from_net_signal e m ?r (on_st ?f ?w1) = Some w'"
      by (simp add: read_from_net_io_def Let_def)
    from world_inv_read_signal [OF h i2 this] show ?thesis .
  qed
qed

lemma world_inv_read_locked:
  assumes h: "\<forall>c ev d s s'. vc_inv s \<longrightarrow> handleEvent e c ev d s = Some s' \<longrightarrow> vc_inv s'"
      and k: "\<forall>k v. socket_read e k v \<le> sum_list v"
      and i: "world_inv w"
      and l: "read_from_net_locked e thr m w = Some w1"
  shows "world_inv w1"
proof (cases "closed (st w) \<noteq> 0")
  case True
  with l obtain s' where c: "close_UnixNetVConnection e (st w) (Some thr) = Some s'" and w1: "w1 = w\<lparr>st := s'\<rparr>"
    by (auto simp: read_from_net_locked_def)
  with i vc_inv_close [OF c] show ?thesis by (simp add: world_inv_def)
next
  case op: False
  show ?thesis
  proof (cases "\<not> enabled (read_ns (st w)) \<or> op (vio (read_ns (st w))) \<noteq> READ")
    case True
    with op l have "w1 = on_st read_disable w" by (simp add: read_from_net_locked_def)
    with i show ?thesis by (simp add: world_inv_frame)
  next
    case en: False
    let ?ntd = "ntodo (vio (read_ns (st w)))"
    show ?thesis
    proof (cases "?ntd \<le> 0")
      case True
      with op en l have "w1 = on_st read_disable w" by (simp add: read_from_net_locked_def)
      with i show ?thesis by (simp add: world_inv_frame)
    next
      case nt: False
      from op en nt l obtain wb where wb: "mbuf (buffer (vio (read_ns (st w)))) = Some wb"
        by (cases "mbuf (buffer (vio (read_ns (st w))))") (simp_all add: read_from_net_locked_def)
      let ?toread = "if write_avail wb > ?ntd then ?ntd else write_avail wb"
      show ?thesis
      proof (cases "?toread \<noteq> 0")
        case True
        with op en wb nt l have io: "read_from_net_io e m ?toread wb w = Some w1"
          by (simp add: read_from_net_locked_def Let_def)
        from nt have "?toread \<le> nbytes (vio (read_ns (st w))) - ndone (vio (read_ns (st w)))"
          by (simp add: ntodo_def split: if_splits)
        from world_inv_read_io [OF h k i this io] show ?thesis .
      next
        case False
        with op en wb nt l have "read_from_net_signal e m 0 w = Some w1"
          by (simp add: read_from_net_locked_def Let_def)
        from world_inv_read_signal [OF h i this] show ?thesis .
      qed
    qed
  qed
qed

lemma world_inv_read_from_net:
  assumes h: "\<forall>c ev d s s'. vc_inv s \<longrightarrow> handleEvent e c ev d s = Some s' \<longrightarrow> vc_inv s'"
      and k: "\<forall>k v. socket_read e k v \<le> sum_list v"
      and i: "world_inv w"
      and r: "read_from_net e thr w = Some w'"
  shows "world_inv w'"
proof -
  from r obtain m where m: "mutex (vio (read_ns (st w))) = Some m"
    by (cases "mutex (vio (read_ns (st w)))") (simp_all add: read_from_net_def)
  show ?thesis
  proof (cases "Mutex_trylock (Some thr) (mutexes (st w) m)")
    case None
    with r m have "w' = on_st read_reschedule w" by (simp add: read_from_net_def)
    with i show ?thesis by (simp add: world_inv_frame)
  next
    case (Some pm)
    let ?w0 = "on_st (lock_at m pm) w"
    have i0: "world_inv ?w0" using i by (simp add: world_inv_frame)
    from r m Some obtain w1 where l: "read_from_net_locked e thr m ?w0 = Some w1"
      and w': "w' = on_st (unlock_at m) w1"
      by (auto simp: read_from_net_def)
    from world_inv_read_locked [OF h k i0 l] w' show ?thesis by (simp add: world_inv_frame)
  qed
qed

lemma write_fill_iov_bounds:
  "write_fill_iov mi towrite b off tv tw = (tv', tw', b', off') \<Longrightarrow> tw \<le> towrite \<Longrightarrow>
     tw \<le> tw' \<and> tw' \<le> towrite \<and> sum_list tv' - sum_list tv = tw' - tw"
proof (induction mi towrite b off tv tw rule: write_fill_iov.induct)
  case (1 max_iov towrite offset tiovec total_written)
  then show ?case by simp
next
  case (2 max_iov towrite ba b offset tiovec total_written)
  show ?case
  proof (cases "length tiovec < max_iov")
    case False
    with "2.prems" show ?thesis by simp
  next
    case lt: True
    show ?thesis
    proof (cases "ba - offset \<le> 0")
      case True
      with lt "2.prems" "2.IH"(1) [of "ba - offset"] show ?thesis by (simp add: Let_def)
    next
      case pos: False
      let ?l' = "if ba - offset > towrite - total_written then towrite - total_written else ba - offset"
      show ?thesis
      proof (cases "?l' = 0")
        case True
        with lt pos "2.prems" show ?thesis by (simp add: Let_def)
      next
        case False
        with lt pos "2.prems"
        have "write_fill_iov max_iov towrite b 0 (tiovec @ [?l']) (total_written + ?l') = (tv', tw', b', off')"
          by (simp add: Let_def)
        moreover from pos False "2.prems"(2) have "0 < ?l'" "total_written + ?l' \<le> towrite" by auto
        ultimately show ?thesis
          using "2.IH"(2) [of "ba - offset" "towrite - total_written" ?l'] lt pos False
          by (simp add: Let_def)
      qed
    qed
  qed
qed

lemma write_loop_bound:
  assumes "write_loop mi wr towrite b off T cs = Some res"
  shows "(\<forall>k v. wr k v \<le> sum_list v) \<longrightarrow> T \<le> towrite \<longrightarrow>
           (case res of (r, wa, tot, calls) \<Rightarrow> summarize tot wa r \<le> towrite)"
  using assms
proof (induction rule: write_loop.raw_induct [rotated 1, consumes 1])
  case (1 loop mi wr towrite b off T cs res)
  obtain tv tw' b' off' where f: "write_fill_iov mi towrite b off [] T = (tv, tw', b', off')"
    by (cases "write_fill_iov mi towrite b off [] T") auto
  show ?case
  proof (intro impI)
    assume k: "\<forall>k v. wr k v \<le> sum_list v" and T: "T \<le> towrite"
    from write_fill_iov_bounds [OF f T] have bd: "T \<le> tw'" "tw' \<le> towrite" "sum_list tv = tw' - T"
      by simp_all
    let ?r = "wr (length cs) tv"
    from k bd have kr: "?r \<le> tw' - T" by (metis)
    show "case res of (r, wa, tot, calls) \<Rightarrow> summarize tot wa r \<le> towrite"
    proof (cases "?r = tw' - T \<and> tw' < towrite")
      case True
      with "1.hyps" f have "loop mi wr towrite b' off' tw' (cs @ [(tv, ?r)]) = Some res"
        by (simp add: Let_def)
      from "1.IH" [OF this] k bd show ?thesis by simp
    next
      case False
      with "1.hyps" f have "res = (?r, tw' - T, tw', cs @ [(tv, ?r)])"
        by (auto simp: Let_def)
      with kr bd T show ?thesis by (auto simp: summarize_def)
    qed
  qed
qed


lemma world_inv_cong:
  "vc_inv (f (st w)) = vc_inv (st w) \<Longrightarrow> world_inv (on_st f w) = world_inv w"
  by (simp add: world_inv_def on_st_def)

lemma vc_inv_resched:
  "vc_inv (let s1 = (if a then write_reschedule s else s) in (if b then read_reschedule s1 else s1)) = vc_inv s"
  by (simp add: Let_def vc_inv_frame)

lemma vc_inv_flags:
  "vc_inv (x\<lparr>write_ns := (write_ns x)\<lparr>triggered := b\<rparr>\<rparr>) = vc_inv x"
  "vc_inv (x\<lparr>write_ns := (write_ns x)\<lparr>triggered := b\<rparr>, write_ready_list := q\<rparr>) = vc_inv x"
  "vc_inv (x\<lparr>read_ns := (read_ns x)\<lparr>triggered := b\<rparr>, read_ready_list := q\<rparr>) = vc_inv x"
  "vc_inv (x\<lparr>write_ready_list := q\<rparr>) = vc_inv x"
  by (simp_all add: vc_inv_def vio_inv_def)

lemma world_inv_write_tail:
  "world_inv w \<Longrightarrow> write_to_net_io_tail needs w = Some w' \<Longrightarrow> world_inv w'"
  by (cases "entry (buffer (vio (write_ns (st w))))")
     (auto simp: write_to_net_io_tail_def world_inv_frame world_inv_cong vc_inv_resched split: if_splits)

lemma world_inv_write_done:
  assumes h: "\<forall>c ev d s s'. vc_inv s \<longrightarrow> handleEvent e c ev d s = Some s' \<longrightarrow> vc_inv s'"
      and i: "world_inv w"
      and b: "r \<le> nbytes (vio (write_ns (st w))) - ndone (vio (write_ns (st w)))"
      and r: "write_to_net_io_done e m signalled needs r w = Some w'"
  shows "world_inv w'"
proof -
  let ?s = "st w"
  from r obtain rd where rd: "entry (buffer (vio (write_ns ?s))) = Some rd"
    by (cases "entry (buffer (vio (write_ns ?s)))") (simp_all add: write_to_net_io_done_def Let_def)
  let ?s1 = "?s\<lparr>write_ns := (write_ns ?s)\<lparr>vio := (vio (write_ns ?s))
                       \<lparr>buffer := (buffer (vio (write_ns ?s)))\<lparr>entry := Some (consume r rd)\<rparr>,
                        ndone := ndone (vio (write_ns ?s)) + r\<rparr>\<rparr>\<rparr>"
  let ?s2 = "if \<not> read_avail (consume r rd) > 0 then ?s1\<lparr>write_buffer_empty_event := 0\<rparr> else ?s1"
  let ?w1 = "w\<lparr>st := net_activity e ?s2\<rparr>"
  from i b have "vc_inv ?s1" by (simp add: world_inv_def vc_inv_def vio_inv_def)
  then have "vc_inv ?s2" by (simp add: vc_inv_def vio_inv_def)
  then have "vc_inv (net_activity e ?s2)" by (simp add: vc_inv_frame)
  with i have i1: "world_inv ?w1" unfolding world_inv_on_st by (simp add: world_inv_def)
  from r rd
  consider (complete) ret where "write_signal_done e VC_EVENT_WRITE_COMPLETE ?w1 = Some (ret, w')"
    | (sig) ev ret w2 where "signal_and_update e WriteVIO ev ?w1 = Some (ret, w2)"
        "w' = w2 \<or> w' = on_st write_reschedule w2 \<or> write_to_net_io_tail needs w2 = Some w'"
    | (tail) "write_to_net_io_tail needs ?w1 = Some w'"
    unfolding write_to_net_io_done_def Let_def write_signal_and_update_def
    by (simp split: if_splits option.splits prod.splits)
  then show ?thesis
  proof cases
    case complete
    from world_inv_signal_done(2) [OF h i1 complete] show ?thesis .
  next
    case sig
    from world_inv_signal [OF h i1 sig(1)] have "world_inv w2" .
    with sig(2) show ?thesis by (auto simp: world_inv_frame intro: world_inv_write_tail)
  next
    case tail
    from world_inv_write_tail [OF i1 tail] show ?thesis .
  qed
qed

lemma world_inv_write_write:
  assumes h: "\<forall>c ev d s s'. vc_inv s \<longrightarrow> handleEvent e c ev d s = Some s' \<longrightarrow> vc_inv s'"
      and k: "\<forall>k v. socket_write e k v \<le> sum_list v"
      and i: "world_inv w"
      and b: "towrite \<le> ntodo (vio (write_ns (st w)))"
      and r: "write_to_net_io_write e m signalled towrite w = Some w'"
  shows "world_inv w'"
proof (cases "towrite \<le> 0")
  case True
  with r have "w' = on_st write_disable w" by (simp add: write_to_net_io_write_def)
  with i show ?thesis by (simp add: world_inv_frame)
next
  case pos: False
  with b have b': "towrite \<le> nbytes (vio (write_ns (st w))) - ndone (vio (write_ns (st w)))"
    by (simp add: ntodo_def split: if_splits)
  from pos r obtain r0 wa tot needs calls where
    lb: "load_buffer_and_write e (length (trace w)) towrite 0 (buffer (vio (write_ns (st w)))) {}
           = Some (r0, wa, tot, needs, calls)"
    by (cases "load_buffer_and_write e (length (trace w)) towrite 0 (buffer (vio (write_ns (st w)))) {}")
       (auto simp: write_to_net_io_write_def)
  then obtain rd :: IOBufferReader where
    wl: "write_loop (NET_MAX_IOV e) (\<lambda>k. socket_write e (length (trace w) + k)) towrite
           (block rd) (start_offset rd) 0 [] = Some (r0, wa, tot, calls)"
    by (auto simp: load_buffer_and_write_def split: option.splits)
  from write_loop_bound [OF wl] k pos have bd: "summarize tot wa r0 \<le> towrite" by simp
  let ?r = "summarize tot wa r0"
  let ?w1 = "w\<lparr>trace := trace w @ map (\<lambda>(v, x). SysWrite v x) calls\<rparr>"
  have w1: "world_inv ?w1" using i by (simp add: world_inv_sys)
  have st1: "st ?w1 = st w" by simp
  show ?thesis
  proof (cases "?r \<le> 0")
    case False
    with pos r lb have d: "write_to_net_io_done e m signalled needs ?r ?w1 = Some w'"
      by (simp add: write_to_net_io_write_def Let_def)
    from b' bd have "?r \<le> nbytes (vio (write_ns (st ?w1))) - ndone (vio (write_ns (st ?w1)))" by simp
    from world_inv_write_done [OF h w1 this d] show ?thesis .
  next
    case True
    let ?t = "\<lambda>s. s\<lparr>write_ns := (write_ns s)\<lparr>triggered := False\<rparr>\<rparr>"
    let ?g = "\<lambda>s. let s1 = (if EVENTIO_WRITE \<in> needs
                                  then write_reschedule
                                         (s\<lparr>write_ns := (write_ns s)\<lparr>triggered := False\<rparr>,
                                            write_ready_list := q_remove This (write_ready_list s)\<rparr>)
                                  else s)
                        in (if EVENTIO_READ \<in> needs
                            then read_reschedule
                                   (s1\<lparr>read_ns := (read_ns s1)\<lparr>triggered := False\<rparr>,
                                       read_ready_list := q_remove This (read_ready_list s1)\<rparr>)
                            else s1)"
    have it: "world_inv (on_st ?t ?w1)" using w1 by (simp add: world_inv_cong vc_inv_flags)
    have "vc_inv (?g (st ?w1)) = vc_inv (st ?w1)" by (simp add: Let_def vc_inv_frame vc_inv_flags)
    from world_inv_cong [of ?g ?w1, OF this] w1 have ig: "world_inv (on_st ?g ?w1)" by simp
    from pos r lb True
    consider "w' = on_st ?g ?w1"
      | ret where "write_signal_done e VC_EVENT_EOS (on_st ?t ?w1) = Some (ret, w')"
      | ret where "write_signal_error e (int_cast (- ?r)) (on_st ?t ?w1) = Some (ret, w')"
      unfolding write_to_net_io_write_def
      by (simp add: Let_def split: if_splits) blast+
    then show ?thesis
    proof cases
      case 1 show ?thesis unfolding 1 using ig .
    next
      case 2
      from world_inv_signal_done(2) [OF h it 2] show ?thesis .
    next
      case 3
      from world_inv_signal_done(4) [OF h it 3] show ?thesis .
    qed
  qed
qed

lemma world_inv_write_handshake:
  assumes h: "\<forall>c ev d s s'. vc_inv s \<longrightarrow> handleEvent e c ev d s = Some s' \<longrightarrow> vc_inv s'"
      and i: "world_inv w"
      and r: "write_handshake e w = Some w'"
  shows "world_inv w'"
proof -
  obtain ret err where s: "sslStartHandShake e
             (if getSSLClientConnection e (st w) then SSL_EVENT_CLIENT else SSL_EVENT_SERVER) (st w) = (ret, err)"
    by (cases "sslStartHandShake e
             (if getSSLClientConnection e (st w) then SSL_EVENT_CLIENT else SSL_EVENT_SERVER) (st w)")
  let ?t = "\<lambda>s. s\<lparr>write_ns := (write_ns s)\<lparr>triggered := False\<rparr>\<rparr>"
  have it: "world_inv (on_st ?t w)" using i by (simp add: world_inv_cong vc_inv_flags)
  show ?thesis
  proof (cases "ret = EVENT_ERROR")
    case True
    with r s obtain rr where "write_signal_error e err (on_st ?t w) = Some (rr, w')"
      by (auto simp: write_handshake_def)
    from world_inv_signal_done(4) [OF h it this] show ?thesis .
  next
    case False
    with r s i show ?thesis
      by (auto simp: write_handshake_def world_inv_frame world_inv_cong vc_inv_frame vc_inv_flags Let_def
            split: if_splits)
  qed
qed

lemma world_inv_write_locked:
  assumes h: "\<forall>c ev d s s'. vc_inv s \<longrightarrow> handleEvent e c ev d s = Some s' \<longrightarrow> vc_inv s'"
      and k: "\<forall>k v. socket_write e k v \<le> sum_list v"
      and i: "world_inv w"
      and l: "write_to_net_io_locked e m w = Some w1"
  shows "world_inv w1"
proof (cases "\<not> getSSLHandShakeComplete e (st w)")
  case True
  with l have "write_handshake e w = Some w1" by (simp add: write_to_net_io_locked_def)
  from world_inv_write_handshake [OF h i this] show ?thesis .
next
  case hs: False
  show ?thesis
  proof (cases "\<not> enabled (write_ns (st w)) \<or> op (vio (write_ns (st w))) \<noteq> WRITE")
    case True
    with hs l have "w1 = on_st write_disable w" by (simp add: write_to_net_io_locked_def)
    with i show ?thesis by (simp add: world_inv_frame)
  next
    case en: False
    let ?ntd = "ntodo (vio (write_ns (st w)))"
    show ?thesis
    proof (cases "?ntd \<le> 0")
      case True
      with hs en l have "w1 = on_st write_disable w" by (simp add: write_to_net_io_locked_def)
      with i show ?thesis by (simp add: world_inv_frame)
    next
      case nt: False
      from hs en nt l obtain rd where rd: "entry (buffer (vio (write_ns (st w)))) = Some rd"
        by (cases "entry (buffer (vio (write_ns (st w))))") (simp_all add: write_to_net_io_locked_def)
      let ?towrite = "if read_avail rd > ?ntd then ?ntd else read_avail rd"
      have tb: "?towrite \<le> ?ntd" by simp
      have direct: "world_inv w1" if "write_to_net_io_write e m False ?towrite w = Some w1"
        using world_inv_write_write [OF h k i tb that] .
      show ?thesis
      proof (cases "?towrite \<noteq> ?ntd")
        case False
        with hs en nt rd l have "write_to_net_io_write e m False ?towrite w = Some w1"
          by (simp add: write_to_net_io_locked_def Let_def)
        then show ?thesis by (rule direct)
      next
        case ne: True
        from hs en nt rd ne l obtain wb where wb: "mbuf (buffer (vio (write_ns (st w)))) = Some wb"
          by (cases "mbuf (buffer (vio (write_ns (st w))))")
             (simp_all add: write_to_net_io_locked_def Let_def)
        show ?thesis
        proof (cases "write_avail wb \<noteq> 0")
          case False
          with hs en nt rd ne wb l have "write_to_net_io_write e m False ?towrite w = Some w1"
            by (simp add: write_to_net_io_locked_def Let_def)
          then show ?thesis by (rule direct)
        next
          case True
          with hs en nt rd ne wb l obtain ret w2 where
            sg: "signal_and_update e WriteVIO VC_EVENT_WRITE_READY w = Some (ret, w2)"
            and rest: "w1 = w2 \<or> w1 = on_st write_disable w2 \<or>
               (\<exists>rd1. entry (buffer (vio (write_ns (st w2)))) = Some rd1 \<and>
                  write_to_net_io_write e m True
                    (if read_avail rd1 > ntodo (vio (write_ns (st w2)))
                     then ntodo (vio (write_ns (st w2))) else read_avail rd1) w2 = Some w1)"
            unfolding write_to_net_io_locked_def Let_def write_signal_and_update_def
            by (simp split: if_splits option.splits prod.splits)
          from world_inv_signal [OF h i sg] have i2: "world_inv w2" .
          from rest show ?thesis
          proof (elim disjE exE conjE)
            assume "w1 = w2" with i2 show ?thesis by simp
          next
            assume "w1 = on_st write_disable w2" with i2 show ?thesis by (simp add: world_inv_frame)
          next
            fix rd1
            assume "write_to_net_io_write e m True
                    (if read_avail rd1 > ntodo (vio (write_ns (st w2)))
                     then ntodo (vio (write_ns (st w2))) else read_avail rd1) w2 = Some w1"
            from world_inv_write_write [OF h k i2 _ this] show ?thesis by simp
          qed
        qed
      qed
    qed
  qed
qed

lemma world_inv_write_to_net_io:
  assumes h: "\<forall>c ev d s s'. vc_inv s \<longrightarrow> handleEvent e c ev d s = Some s' \<longrightarrow> vc_inv s'"
      and k: "\<forall>k v. socket_write e k v \<le> sum_list v"
      and i: "world_inv w"
      and r: "write_to_net_io e thr w = Some w'"
  shows "world_inv w'"
proof -
  from r obtain m where m: "mutex (vio (write_ns (st w))) = Some m"
    by (cases "mutex (vio (write_ns (st w)))") (simp_all add: write_to_net_io_def)
  show ?thesis
  proof (cases "Mutex_trylock (Some thr) (mutexes (st w) m)")
    case None
    with r m have "w' = on_st write_reschedule w" by (simp add: write_to_net_io_def)
    with i show ?thesis by (simp add: world_inv_frame)
  next
    case (Some pm)
    let ?w0 = "on_st (lock_at m pm) w"
    have i0: "world_inv ?w0" using i by (simp add: world_inv_frame)
    from r m Some
    consider "w' = on_st (unlock_at m) (on_st write_reschedule ?w0)"
      | w1 where "write_to_net_io_locked e m ?w0 = Some w1" "w' = on_st (unlock_at m) w1"
      by (auto simp: write_to_net_io_def Let_def split: if_splits)
    then show ?thesis
    proof cases
      case 1
      with i0 show ?thesis by (simp add: world_inv_frame)
    next
      case 2
      from world_inv_write_locked [OF h k i0 2(1)] 2(2) show ?thesis by (simp add: world_inv_frame)
    qed
  qed
qed

text \<open>
  The entry points keep the invariant too: \<open>do_io_read\<close> and \<open>do_io_write\<close> set
  \<open>ndone = 0\<close>, so they establish it for a byte count that is not negative;
  \<open>do_io_shutdown\<close> and \<open>do_io_close\<close> set \<open>nbytes = 0\<close>.
\<close>

lemma vc_inv_reenable:
  "reenable e d s = Some s' \<Longrightarrow> vc_inv s' = vc_inv s"
proof -
  have a: "vc_inv (set_enabled e d x) = vc_inv x" for x
    by (cases d) (simp_all add: set_enabled_def netstate_update_def vc_inv_def vio_inv_def Let_def)
  have b: "vc_inv (reenable_owned d x) = vc_inv x" "vc_inv (reenable_remote d x) = vc_inv x" for x
    by (cases d; simp add: reenable_owned_def reenable_remote_def vc_inv_def vio_inv_def Let_def)+
  assume "reenable e d s = Some s'"
  then show ?thesis
    by (auto simp: reenable_def Let_def a b vc_inv_frame split: if_splits option.splits)
qed

lemma vc_inv_do_io_read:
  assumes r: "do_io_read e c nb buf s = Some (r, s')" and n: "0 \<le> nb" and i: "vc_inv s"
  shows "vc_inv s'"
proof (cases "closed s \<noteq> 0")
  case True
  with r i show ?thesis by (simp add: do_io_read_def)
next
  case False
  let ?s1 = "s\<lparr>read_ns := (read_ns s)\<lparr>vio := (vio (read_ns s))
                    \<lparr>op := READ,
                     mutex := (case c of Some k \<Rightarrow> cont_mutex s k | None \<Rightarrow> vc_mutex s),
                     cont := c, nbytes := nb, ndone := 0, vc_server := True\<rparr>\<rparr>\<rparr>"
  have i1: "vc_inv ?s1" using i n by (simp add: vc_inv_def vio_inv_def)
  show ?thesis
  proof (cases buf)
    case None
    with False r have "s' = ?s1\<lparr>read_ns := (read_ns ?s1)\<lparr>enabled := False,
                            vio := (vio (read_ns ?s1))\<lparr>buffer := buffer_clear\<rparr>\<rparr>\<rparr>"
      by (simp add: do_io_read_def Let_def)
    with i n show ?thesis by (simp add: vc_inv_def vio_inv_def)
  next
    case (Some b)
    let ?s2 = "?s1\<lparr>read_ns := (read_ns ?s1)\<lparr>vio := (vio (read_ns ?s1))\<lparr>buffer := writer_for b\<rparr>\<rparr>\<rparr>"
    have i2: "vc_inv ?s2" using i n by (simp add: vc_inv_def vio_inv_def)
    from False Some r have "s' = ?s2 \<or> reenable e ReadVIO ?s2 = Some s'"
      by (auto simp: do_io_read_def Let_def VIO_reenable_def split: if_splits)
    with i2 show ?thesis by (auto simp: vc_inv_reenable)
  qed
qed

lemma vc_inv_do_io_write:
  assumes r: "do_io_write e c nb rdr s = Some (r, s')" and n: "0 \<le> nb" and i: "vc_inv s"
  shows "vc_inv s'"
proof (cases "closed s \<noteq> 0")
  case True
  with r i show ?thesis by (simp add: do_io_write_def)
next
  case False
  let ?s1 = "s\<lparr>write_ns := (write_ns s)\<lparr>vio := (vio (write_ns s))
                    \<lparr>op := WRITE,
                     mutex := (case c of Some k \<Rightarrow> cont_mutex s k | None \<Rightarrow> vc_mutex s),
                     cont := c, nbytes := nb, ndone := 0, vc_server := True\<rparr>\<rparr>\<rparr>"
  show ?thesis
  proof (cases rdr)
    case None
    with False r have "s' = ?s1\<lparr>write_ns := (write_ns ?s1)\<lparr>enabled := False\<rparr>\<rparr>"
      by (simp add: do_io_write_def Let_def)
    with i n show ?thesis by (simp add: vc_inv_def vio_inv_def)
  next
    case (Some b)
    let ?s2 = "?s1\<lparr>write_ns := (write_ns ?s1)\<lparr>vio := (vio (write_ns ?s1))\<lparr>buffer := reader_for b\<rparr>\<rparr>\<rparr>"
    have i2: "vc_inv ?s2" using i n by (simp add: vc_inv_def vio_inv_def)
    from False Some r have "s' = ?s2 \<or> reenable e WriteVIO ?s2 = Some s'"
      by (auto simp: do_io_write_def Let_def VIO_reenable_def split: if_splits)
    with i2 show ?thesis by (auto simp: vc_inv_reenable)
  qed
qed

lemma vc_inv_do_io_shutdown:
  "vc_inv s \<Longrightarrow> vc_inv (do_io_shutdown howto s)"
  by (cases howto) (simp_all add: do_io_shutdown_def vc_inv_def vio_inv_def)

lemma vc_inv_do_io_close:
  assumes r: "do_io_close e alerrno s = Some s'"
  shows "vc_inv s'"
proof -
  let ?s1 = "do_io_close_prepare s"
  let ?s2 = "if alerrno \<noteq> 0 \<and> alerrno \<noteq> - 1 then ?s1\<lparr>lerrno := alerrno\<rparr> else ?s1"
  let ?s3 = "if alerrno = - 1 then ?s2\<lparr>closed := 1\<rparr> else ?s2\<lparr>closed := - 1\<rparr>"
  have "vc_inv ?s1" by (simp add: do_io_close_prepare_def vc_inv_def vio_inv_def)
  then have "vc_inv ?s2" by (simp add: vc_inv_def split: if_splits)
  then have i3: "vc_inv ?s3" by (simp add: vc_inv_def split: if_splits)
  from r have "s' = ?s3 \<or> close_UnixNetVConnection e ?s3 (Some (this_ethread e)) = Some s'"
    unfolding do_io_close_def Let_def by (simp split: if_splits)
  then show ?thesis
  proof
    assume "s' = ?s3" with i3 show ?thesis by simp
  next
    assume "close_UnixNetVConnection e ?s3 (Some (this_ethread e)) = Some s'"
    from vc_inv_close [OF this] i3 show ?thesis by simp
  qed
qed

text \<open>
  A read pass on a VIO with nothing left to do returns through \<open>read_disable\<close> whatever
  the buffer is: the writer is looked at only after the test of \<open>ntodo\<close>.
\<close>

lemma read_from_net_nothing_to_do:
  assumes "mutex (vio (read_ns (st w))) = Some m"
      and "Mutex_trylock (Some thr) (mutexes (st w) m) = Some pm"
      and "closed (st w) = 0" and "enabled (read_ns (st w))" and "op (vio (read_ns (st w))) = READ"
      and "ntodo (vio (read_ns (st w))) \<le> 0"
  shows "read_from_net e thr w =
           Some (on_st (unlock_at m) (on_st read_disable (on_st (lock_at m pm) w)))"
  using assms
  by (simp add: read_from_net_def read_from_net_locked_def on_st_def lock_at_def Let_def)

text \<open>The timeout handler signals the continuations and changes no byte count itself.\<close>

lemma world_inv_mainEvent_write:
  assumes h: "\<forall>c ev d s s'. vc_inv s \<longrightarrow> handleEvent e c ev d s = Some s' \<longrightarrow> vc_inv s'"
      and i: "world_inv w"
      and r: "mainEvent_write e event rc wc w = Some (ret, w')"
  shows "world_inv w'"
proof -
  from r have "w' = w \<or> (\<exists>x. signal_and_update e WriteVIO (signal_event event) w = Some (x, w'))"
    unfolding mainEvent_write_def Let_def write_signal_and_update_def
    by (auto split: if_splits option.splits)
  then show ?thesis
  proof (elim disjE exE)
    assume "w' = w" with i show ?thesis by simp
  next
    fix x assume "signal_and_update e WriteVIO (signal_event event) w = Some (x, w')"
    from world_inv_signal [OF h i this] show ?thesis .
  qed
qed

lemma world_inv_mainEvent_locked:
  assumes h: "\<forall>c ev d s s'. vc_inv s \<longrightarrow> handleEvent e c ev d s = Some s' \<longrightarrow> vc_inv s'"
      and i: "world_inv w"
      and r: "mainEvent_locked e event cancelled w = Some (ret, w')"
  shows "world_inv w'"
proof (cases "cancelled \<or> (event = EVENT_IMMEDIATE \<and>
              (inactivity_timeout_in (st w) = 0 \<or> next_inactivity_timeout_at (st w) > get_hrtime e))")
  case True
  with r have "w' = w" by (auto simp: mainEvent_locked_def split: if_splits)
  with i show ?thesis by simp
next
  case go: False
  let ?s1 = "clear_signal_timeout_at event (st w)"
  let ?w1 = "w\<lparr>st := ?s1\<rparr>"
  have "vc_inv ?s1 = vc_inv (st w)" by (simp add: clear_signal_timeout_at_def vc_inv_def)
  with i have i1: "world_inv ?w1" by (simp add: world_inv_def)
  show ?thesis
  proof (cases "closed ?s1 \<noteq> 0")
    case True
    with go r obtain s' where c: "close_UnixNetVConnection e ?s1 (thread ?s1) = Some s'"
      and w': "w' = w\<lparr>st := s'\<rparr>"
      by (auto simp: mainEvent_locked_def Let_def)
    from vc_inv_close [OF c] i1 w' show ?thesis by (simp add: world_inv_def)
  next
    case op: False
    show ?thesis
    proof (cases "op (vio (read_ns ?s1)) = READ \<and> f_shutdown ?s1 AND NET_VC_SHUTDOWN_READ = 0")
      case False
      with go op r
      have "mainEvent_write e event None (cont (vio (write_ns ?s1))) ?w1 = Some (ret, w')"
        by (auto simp: mainEvent_locked_def Let_def)
      from world_inv_mainEvent_write [OF h i1 this] show ?thesis .
    next
      case True
      with go op r obtain x w2 where
        sg: "signal_and_update e ReadVIO (signal_event event) ?w1 = Some (x, w2)"
        and rest: "w' = w2 \<or>
           mainEvent_write e event (cont (vio (read_ns ?s1))) (cont (vio (write_ns ?s1))) w2 = Some (ret, w')"
        unfolding mainEvent_locked_def Let_def read_signal_and_update_def
        by (simp split: option.splits if_splits prod.splits)
      from world_inv_signal [OF h i1 sg] have i2: "world_inv w2" .
      from rest show ?thesis
      proof
        assume "w' = w2" with i2 show ?thesis by simp
      next
        assume "mainEvent_write e event (cont (vio (read_ns ?s1))) (cont (vio (write_ns ?s1))) w2 = Some (ret, w')"
        from world_inv_mainEvent_write [OF h i2 this] show ?thesis .
      qed
    qed
  qed
qed

lemma vc_inv_try_lock_at:
  "try_lock_at t m s = (b, s') \<Longrightarrow> vc_inv s' = vc_inv s"
  by (auto simp: try_lock_at_def vc_inv_frame split: option.splits)

lemma vc_inv_unlock_if:
  "vc_inv (unlock_if b m s) = vc_inv s"
  by (simp add: unlock_if_def vc_inv_frame)

lemma world_inv_mainEvent:
  assumes h: "\<forall>c ev d s s'. vc_inv s \<longrightarrow> handleEvent e c ev d s = Some s' \<longrightarrow> vc_inv s'"
      and i: "world_inv w"
      and r: "mainEvent e event cancelled w = Some (ret, w')"
  shows "world_inv w'"
proof -
  obtain hl sh where hq: "try_lock_at (Some (this_ethread e)) (nh_mutex (st w)) (st w) = (hl, sh)"
    by (cases "try_lock_at (Some (this_ethread e)) (nh_mutex (st w)) (st w)")
  let ?rm = "case mutex (vio (read_ns (st w))) of Some m \<Rightarrow> m | None \<Rightarrow> ethread_mutex e"
  let ?wm = "case mutex (vio (write_ns (st w))) of Some m \<Rightarrow> m | None \<Rightarrow> ethread_mutex e"
  obtain rl sr where rq: "try_lock_at (Some (this_ethread e)) ?rm sh = (rl, sr)"
    by (cases "try_lock_at (Some (this_ethread e)) ?rm sh")
  obtain wl sw where wq: "try_lock_at (Some (this_ethread e)) ?wm sr = (wl, sw)"
    by (cases "try_lock_at (Some (this_ethread e)) ?wm sr")
  let ?release = "\<lambda>x. unlock_if hl (nh_mutex (st w)) (unlock_if rl ?rm (unlock_if wl ?wm x))"
  have rel: "vc_inv (?release x) = vc_inv x" for x by (simp add: vc_inv_unlock_if)
  from vc_inv_try_lock_at [OF hq] vc_inv_try_lock_at [OF rq] vc_inv_try_lock_at [OF wq]
  have sw: "vc_inv sw = vc_inv (st w)" by simp
  from r hq rq wq
  consider (fail) "w' = w\<lparr>st := ?release sw\<rparr>"
    | (locked) r0 w0 where "mainEvent_locked e event cancelled (w\<lparr>st := sw\<rparr>) = Some (r0, w0)"
        "w' = on_st ?release w0"
    by (auto simp: mainEvent_def Let_def split: if_splits)
  then show ?thesis
  proof cases
    case fail
    with i sw rel show ?thesis by (simp add: world_inv_def)
  next
    case locked
    from i sw have "world_inv (w\<lparr>st := sw\<rparr>)" by (simp add: world_inv_def)
    from world_inv_mainEvent_locked [OF h this locked(1)] have "world_inv w0" .
    with locked(2) rel show ?thesis by (simp add: world_inv_def on_st_def)
  qed
qed

text \<open>
  C3. \<open>ndone \<le> nbytes\<close> or \<open>nbytes = 0\<close>, for the read VIO and for the write VIO, is
  kept by every operation on the connection. A read pass adds to \<open>ndone\<close> the folded
  result \<open>r\<close>, which is at most \<open>toread\<close> and so at most \<open>ntodo = nbytes - ndone\<close>; a
  write pass adds \<open>r\<close>, at most \<open>towrite\<close> and so at most \<open>ntodo\<close> as computed after the
  continuation was invited to refill; the timeout handler, \<open>reenable\<close>,
  \<open>do_io_shutdown\<close> and \<open>do_io_close\<close> keep it or set \<open>nbytes = 0\<close>. \<open>do_io_read\<close> and
  \<open>do_io_write\<close> store the byte count they are given and set \<open>ndone = 0\<close>, so they
  keep it when the byte count is not negative. The kernel is taken to return at most
  the number of bytes it was asked to move, and the continuations, which can write to
  the VIOs, to keep the invariant themselves. The invariant \<open>world_inv\<close> covers the
  final state and every state on which a continuation was called.
\<close>

theorem C3_io_keeps_byte_counts:
  assumes kr: "\<forall>k v. socket_read e k v \<le> sum_list v"
      and kw: "\<forall>k v. socket_write e k v \<le> sum_list v"
      and h: "\<forall>c ev d s s'. vc_inv s \<longrightarrow> handleEvent e c ev d s = Some s' \<longrightarrow> vc_inv s'"
      and i: "world_inv w"
  shows "(\<forall>w'. read_from_net e thr w = Some w' \<longrightarrow> world_inv w') \<and>
         (\<forall>w'. net_read_io e thr w = Some w' \<longrightarrow> world_inv w') \<and>
         (\<forall>w'. write_to_net_io e thr w = Some w' \<longrightarrow> world_inv w') \<and>
         (\<forall>w'. write_to_net e thr w = Some w' \<longrightarrow> world_inv w') \<and>
         (\<forall>event cancelled ret w'. mainEvent e event cancelled w = Some (ret, w') \<longrightarrow> world_inv w') \<and>
         (\<forall>c nb buf r s'. 0 \<le> nb \<longrightarrow> do_io_read e c nb buf (st w) = Some (r, s') \<longrightarrow> vc_inv s') \<and>
         (\<forall>c nb rdr r s'. 0 \<le> nb \<longrightarrow> do_io_write e c nb rdr (st w) = Some (r, s') \<longrightarrow> vc_inv s') \<and>
         (\<forall>howto. vc_inv (do_io_shutdown howto (st w))) \<and>
         (\<forall>alerrno s'. do_io_close e alerrno (st w) = Some s' \<longrightarrow> vc_inv s') \<and>
         (\<forall>d s'. reenable e d (st w) = Some s' \<longrightarrow> vc_inv s')"
proof -
  from i have i0: "vc_inv (st w)" by (simp add: world_inv_def)
  have 1: "\<forall>w'. read_from_net e thr w = Some w' \<longrightarrow> world_inv w'"
    using world_inv_read_from_net [OF h kr i] by blast
  have 2: "\<forall>w'. write_to_net_io e thr w = Some w' \<longrightarrow> world_inv w'"
    using world_inv_write_to_net_io [OF h kw i] by blast
  have 3: "\<forall>event cancelled ret w'. mainEvent e event cancelled w = Some (ret, w') \<longrightarrow> world_inv w'"
    using world_inv_mainEvent [OF h i] by blast
  have 4: "\<forall>c nb buf r s'. 0 \<le> nb \<longrightarrow> do_io_read e c nb buf (st w) = Some (r, s') \<longrightarrow> vc_inv s'"
    using vc_inv_do_io_read i0 by blast
  have 5: "\<forall>c nb rdr r s'. 0 \<le> nb \<longrightarrow> do_io_write e c nb rdr (st w) = Some (r, s') \<longrightarrow> vc_inv s'"
    using vc_inv_do_io_write i0 by blast
  have 6: "\<forall>howto. vc_inv (do_io_shutdown howto (st w))"
    using vc_inv_do_io_shutdown i0 by blast
  have 7: "\<forall>alerrno s'. do_io_close e alerrno (st w) = Some s' \<longrightarrow> vc_inv s'"
    using vc_inv_do_io_close by blast
  have 8: "\<forall>d s'. reenable e d (st w) = Some s' \<longrightarrow> vc_inv s'"
    using vc_inv_reenable i0 by blast
  from 1 2 3 4 5 6 7 8 show ?thesis by (simp only: net_read_io_def write_to_net_def) blast
qed

text \<open>
  The claim C3 as stated, for every connection at all times, fails where a VIO is set
  up with a negative byte count: \<open>do_io_read\<close> has no test of its \<open>nbytes\<close> argument and
  stores \<open>- 5\<close> with \<open>ndone = 0\<close>, on a connection that satisfied the invariant. The
  passes are written for that state: they test \<open>ntodo \<le> 0\<close> and disable the direction.
\<close>

theorem C3_negative_count_counterexample:
  "vc_inv vc_triggered \<and>
   do_io_read env0 (Some 7) (- 5) (Some [4096]) vc_triggered \<noteq> None \<and>
   fst (the (do_io_read env0 (Some 7) (- 5) (Some [4096]) vc_triggered)) = Some ReadVIO \<and>
   nbytes (vio (read_ns (snd (the (do_io_read env0 (Some 7) (- 5) (Some [4096]) vc_triggered))))) = - 5 \<and>
   ndone (vio (read_ns (snd (the (do_io_read env0 (Some 7) (- 5) (Some [4096]) vc_triggered))))) = 0 \<and>
   \<not> vc_inv (snd (the (do_io_read env0 (Some 7) (- 5) (Some [4096]) vc_triggered)))"
  by (simp add: do_io_read_def writer_for_def vc_inv_def vio_inv_def vc_triggered_def vc0_def ns0_def
        vio0_def Let_def)

lemmas read_path_defs =
  read_from_net_def read_from_net_locked_def read_from_net_io_def read_from_net_signal_def
  read_from_net_tail_def read_loop.simps summarize_def read_signal_done_def read_signal_error_def
  read_signal_and_update_def signal_and_update_def read_reschedule_def read_disable_def
  net_activity_def ntodo_def write_avail_def writer_for_def netstate_def on_st_def lock_at_def
  unlock_at_def Mutex_trylock_def Mutex_unlock_def in_or_enqueue_def q_remove_def

lemmas write_path_defs =
  write_to_net_io_def write_to_net_io_locked_def write_to_net_io_write_def write_to_net_io_done_def
  write_to_net_io_tail_def load_buffer_and_write_def write_loop.simps summarize_def
  write_signal_done_def write_signal_error_def write_signal_and_update_def signal_and_update_def
  write_reschedule_def write_disable_def net_activity_def ntodo_def read_avail_def write_avail_def
  reader_for_def consume_def netstate_def on_st_def lock_at_def unlock_at_def Mutex_trylock_def
  Mutex_unlock_def in_or_enqueue_def q_remove_def

theorem C3_io_keeps_byte_counts_witness:
  "world_inv (w_timeout 8) \<and>
   (\<exists>w'. read_from_net env0 1 (w_timeout 8) = Some w' \<and> world_inv w' \<and>
         ndone (vio (read_ns (st w'))) = 100 \<and> length (trace w') = 2) \<and>
   (\<exists>w'. write_to_net_io env0 1 (w_timeout 8) = Some w' \<and> world_inv w' \<and>
         ndone (vio (write_ns (st w'))) = 50 \<and> length (trace w') = 2) \<and>
   (\<exists>ret w'. mainEvent env0 EVENT_INTERVAL False (w_timeout 8) = Some (ret, w') \<and> world_inv w' \<and>
         length (trace w') = 2) \<and>
   (\<exists>r s'. do_io_read env0 (Some 7) 20 (Some [4096]) (st (w_timeout 8)) = Some (r, s') \<and> vc_inv s' \<and>
         nbytes (vio (read_ns s')) = 20)"
proof -
  have kr: "\<forall>k v. socket_read env0 k v \<le> sum_list v" and kw: "\<forall>k v. socket_write env0 k v \<le> sum_list v"
    and h: "\<forall>c ev d s s'. vc_inv s \<longrightarrow> handleEvent env0 c ev d s = Some s' \<longrightarrow> vc_inv s'"
    by (simp_all add: env0_def)
  have i: "world_inv (w_timeout 8)"
    by (simp add: world_inv_def vc_inv_def vio_inv_def w_timeout_def vc_triggered_def vio0_def)
  obtain wr where wr: "read_from_net env0 1 (w_timeout 8) = Some wr" "ndone (vio (read_ns (st wr))) = 100"
      "length (trace wr) = 2"
    by (simp add: read_path_defs const_defs w_timeout_def vc_triggered_def vc0_def vio0_def
          env0_def Let_def)
  obtain ww where ww: "write_to_net_io env0 1 (w_timeout 8) = Some ww" "ndone (vio (write_ns (st ww))) = 50"
      "length (trace ww) = 2"
    by (simp add: write_path_defs const_defs w_timeout_def vc_triggered_def vc0_def vio0_def
          env0_def Let_def)
  obtain rm wm where wm: "mainEvent env0 EVENT_INTERVAL False (w_timeout 8) = Some (rm, wm)"
      "length (trace wm) = 2"
    by (simp add: main_event_defs const_defs w_timeout_def vc_triggered_def vc0_def vio0_def
          env0_def Let_def)
  obtain rr sr where sr: "do_io_read env0 (Some 7) 20 (Some [4096]) (st (w_timeout 8)) = Some (rr, sr)"
      "nbytes (vio (read_ns sr)) = 20"
    by (simp add: do_io_read_def writer_for_def w_timeout_def vc_triggered_def vc0_def vio0_def Let_def)
  note c = C3_io_keeps_byte_counts [OF kr kw h i, of 1]
  from c wr have 1: "world_inv wr" by simp
  from c ww have 2: "world_inv ww" by simp
  from c wm have 3: "world_inv wm" by simp
  from c have "\<forall>c nb buf r s'. 0 \<le> nb \<longrightarrow>
      do_io_read env0 c nb buf (st (w_timeout 8)) = Some (r, s') \<longrightarrow> vc_inv s'" by simp
  from this [rule_format, OF _ sr(1)] have 4: "vc_inv sr" by simp
  from 1 2 3 4 wr ww wm sr i show ?thesis by simp
qed

end
